theory Spec2Isabelle
  imports Complex_Main
begin

section \<open>The architecture-description loader of \<open>vpr/read_arch.c\<close>\<close>

text \<open>
  The loader reads an FPGA architecture file in two passes (\<open>countpass\<close>, then the
  loading loop of \<open>read_arch\<close>), validates it (\<open>check_arch\<close>) and later sizes and
  fills the device grid (\<open>init_arch\<close>, \<open>fill_arch\<close>).  Every \<open>exit (1)\<close> of the source
  is a value of the type \<open>error\<close> below; the global variables the source mutates are the
  fields of the record \<open>globals\<close>, passed in and returned.
\<close>

subsection \<open>Input\<close>

text \<open>
  Modelled from the spec: the line reader \<open>my_fgets\<close> and the tokenizer \<open>my_strtok\<close>
  (\<open>util.c\<close>) are not part of the sources at hand.  Following the specification, the
  loader consumes an already tokenized stream: a file is the list of its logical lines
  (comments stripped, continuations joined), and a line is the list of its words.  A call
  \<open>my_strtok (NULL, ...)\<close> takes the head of the remaining words of the current line and
  returns \<open>NULL\<close> when none is left; a call of \<open>my_fgets\<close> drops what remains of the
  current line and moves to the next one.  The line counter \<open>linenum\<close>, which only those
  two routines maintain and only the messages print, is left out.
\<close>

type_synonym tokens = "string list"

subsection \<open>The C library's number readers\<close>

definition is_space :: "char \<Rightarrow> bool" where
  "is_space c \<longleftrightarrow> (of_char c :: nat) = 32 \<or> (9 \<le> (of_char c :: nat) \<and> (of_char c :: nat) \<le> 13)"

definition is_digit :: "char \<Rightarrow> bool" where
  "is_digit c \<longleftrightarrow> 48 \<le> (of_char c :: nat) \<and> (of_char c :: nat) \<le> 57"

definition digit_val :: "char \<Rightarrow> nat" where
  "digit_val c = of_char c - 48"

text \<open>The value of the longest prefix of decimal digits, most significant digit first.\<close>

fun digits_val :: "nat \<Rightarrow> string \<Rightarrow> nat" where
  "digits_val acc [] = acc"
| "digits_val acc (c # cs) =
     (if is_digit c then digits_val (acc * 10 + digit_val c) cs else acc)"

text \<open>
  \<open>atoi\<close>: white space is skipped, one sign is optional, the digits that follow are the
  value, and a string with no digit there is \<open>0\<close>.  The result is the mathematical value:
  C leaves \<open>atoi\<close> undefined when that value does not fit an \<open>int\<close>, and such tokens are
  outside this model.
\<close>

definition atoi :: "string \<Rightarrow> int" where
  "atoi s =
     (case dropWhile is_space s of
        [] \<Rightarrow> 0
      | c # cs \<Rightarrow>
          if c = CHR ''-'' then - int (digits_val 0 cs)
          else if c = CHR ''+'' then int (digits_val 0 cs)
          else int (digits_val 0 (c # cs)))"

subsection \<open>Floating-point numbers\<close>

text \<open>
  The values of the types \<open>float\<close> and \<open>double\<close>: a finite number, given as the real
  number it is, an infinity or a not-a-number.  The two zeros are one value \<open>Finite 0\<close>:
  they compare equal, and the program neither prints a value of this model nor takes the
  sign of a zero (a division by a zero is taken as one by the positive zero; what it
  yields is an infinity or a not-a-number either way).
\<close>

datatype fp = Finite real | PInf | NInf | NaN

definition pow2 :: "int \<Rightarrow> real" where
  "pow2 e = (if 0 \<le> e then 2 ^ nat e else 1 / 2 ^ nat (- e))"

text \<open>The nearest integer, a tie going to the even one.\<close>

definition rne :: "real \<Rightarrow> int" where
  "rne y =
     (let f = \<lfloor>y\<rfloor>; d = y - of_int f
      in if d < 1 / 2 then f else if 1 / 2 < d then f + 1 else if even f then f else f + 1)"

text \<open>
  Rounding of a real number to the binary format with \<open>p\<close> significant bits and exponents
  from \<open>emin\<close> to \<open>emax\<close>, in the default mode (to nearest, ties to even): \<open>e\<close> is the
  exponent of the number, not below \<open>emin\<close> (below it the numbers are subnormal), \<open>q\<close> the
  unit in the last of the \<open>p\<close> places, and a result of \<open>2 ^ (emax + 1)\<close> or more is an
  infinity.
\<close>

definition round_to :: "nat \<Rightarrow> int \<Rightarrow> int \<Rightarrow> real \<Rightarrow> fp" where
  "round_to p emin emax x =
     (if x = 0 then Finite 0
      else
        let e = max emin \<lfloor>log 2 \<bar>x\<bar>\<rfloor>;
            q = pow2 (e - int p + 1);
            y = of_int (rne (\<bar>x\<bar> / q)) * q
        in if pow2 (emax + 1) \<le> y then (if x < 0 then NInf else PInf)
           else Finite (if x < 0 then - y else y))"

text \<open>Rounding to \<open>double\<close> (binary64) and to \<open>float\<close> (binary32).\<close>

definition c_double :: "real \<Rightarrow> fp" where
  "c_double = round_to 53 (- 1022) 1023"

definition c_float :: "real \<Rightarrow> fp" where
  "c_float = round_to 24 (- 126) 127"

text \<open>
  The conversion of a \<open>double\<close> to \<open>float\<close>, as in the assignment \<open>val = atof (ptr)\<close> and
  in passing a \<open>double\<close> constant for a \<open>float\<close> parameter.  The conversion of a \<open>float\<close>
  to \<open>double\<close> changes nothing.
\<close>

fun narrow :: "fp \<Rightarrow> fp" where
  "narrow (Finite x) = c_float x"
| "narrow PInf = PInf"
| "narrow NInf = NInf"
| "narrow NaN = NaN"

fun fp_neg :: "fp \<Rightarrow> fp" where
  "fp_neg (Finite x) = Finite (- x)"
| "fp_neg PInf = NInf"
| "fp_neg NInf = PInf"
| "fp_neg NaN = NaN"

text \<open>The comparisons \<open><\<close>, \<open><=\<close> and \<open>==\<close>: every comparison with a not-a-number is false.\<close>

fun fp_lt :: "fp \<Rightarrow> fp \<Rightarrow> bool" where
  "fp_lt NaN b = False"
| "fp_lt a NaN = False"
| "fp_lt (Finite x) (Finite y) = (x < y)"
| "fp_lt a NInf = False"
| "fp_lt PInf b = False"
| "fp_lt NInf b = True"
| "fp_lt a PInf = True"

fun fp_le :: "fp \<Rightarrow> fp \<Rightarrow> bool" where
  "fp_le NaN b = False"
| "fp_le a NaN = False"
| "fp_le (Finite x) (Finite y) = (x \<le> y)"
| "fp_le NInf b = True"
| "fp_le a PInf = True"
| "fp_le a NInf = False"
| "fp_le PInf b = False"

fun fp_eq :: "fp \<Rightarrow> fp \<Rightarrow> bool" where
  "fp_eq NaN b = False"
| "fp_eq a NaN = False"
| "fp_eq a b = (a = b)"






text \<open>
  \<open>atof\<close>, as the C library converts a string: after white space and an optional sign,
  \<open>inf\<close> or \<open>infinity\<close> and \<open>nan\<close> in either case of letters, a hexadecimal number (\<open>0x\<close>,
  hexadecimal digits with an optional point, an optional binary exponent after \<open>p\<close>), or
  a decimal number (digits with an optional point, an optional exponent after \<open>e\<close>).  An
  exponent counts only when an optionally signed, nonempty run of digits follows its
  letter.  With no digit in the mantissa nothing is converted and the value is \<open>0\<close>.  The
  value is rounded to \<open>double\<close>; one beyond the range of \<open>double\<close> is the infinity that
  \<open>strtod\<close> returns.
\<close>

definition lower_eq :: "char \<Rightarrow> char \<Rightarrow> bool" where
  "lower_eq c l \<longleftrightarrow> c = l \<or> (of_char c :: nat) + 32 = of_char l"

fun ci_prefix :: "string \<Rightarrow> string \<Rightarrow> bool" where
  "ci_prefix [] s = True"
| "ci_prefix (l # ls) [] = False"
| "ci_prefix (l # ls) (c # cs) = (lower_eq c l \<and> ci_prefix ls cs)"

definition is_xdigit :: "char \<Rightarrow> bool" where
  "is_xdigit c \<longleftrightarrow>
     is_digit c \<or> (97 \<le> (of_char c :: nat) \<and> (of_char c :: nat) \<le> 102)
       \<or> (65 \<le> (of_char c :: nat) \<and> (of_char c :: nat) \<le> 70)"

definition xdigit_val :: "char \<Rightarrow> nat" where
  "xdigit_val c =
     (if is_digit c then of_char c - 48
      else if 97 \<le> (of_char c :: nat) then of_char c - 87 else of_char c - 55)"

fun xdigits_val :: "nat \<Rightarrow> string \<Rightarrow> nat" where
  "xdigits_val acc [] = acc"
| "xdigits_val acc (c # cs) =
     (if is_xdigit c then xdigits_val (acc * 16 + xdigit_val c) cs else acc)"

definition pow10 :: "int \<Rightarrow> real" where
  "pow10 e = (if 0 \<le> e then 10 ^ nat e else 1 / 10 ^ nat (- e))"

text \<open>
  The exponent after the mantissa, for the exponent letter \<open>l\<close> (\<open>e\<close> or \<open>p\<close>); its digits
  are decimal in both notations.
\<close>

definition exponent :: "char \<Rightarrow> string \<Rightarrow> int" where
  "exponent l s =
     (case s of
        [] \<Rightarrow> 0
      | c # cs \<Rightarrow>
          if lower_eq c l then
            (case cs of
               [] \<Rightarrow> 0
             | d # ds \<Rightarrow>
                 if d = CHR ''-'' then
                   (if ds \<noteq> [] \<and> is_digit (hd ds) then - int (digits_val 0 ds) else 0)
                 else if d = CHR ''+'' then
                   (if ds \<noteq> [] \<and> is_digit (hd ds) then int (digits_val 0 ds) else 0)
                 else if is_digit d then int (digits_val 0 cs)
                 else 0)
          else 0)"

definition dec_value :: "string \<Rightarrow> real" where
  "dec_value s =
     (let ip = takeWhile is_digit s;
          r1 = dropWhile is_digit s;
          fp = (case r1 of [] \<Rightarrow> [] | c # cs \<Rightarrow>
                  if c = CHR ''.'' then takeWhile is_digit cs else []);
          r2 = (case r1 of [] \<Rightarrow> [] | c # cs \<Rightarrow>
                  if c = CHR ''.'' then dropWhile is_digit cs else r1)
      in if ip = [] \<and> fp = [] then 0
         else real (digits_val 0 (ip @ fp)) / 10 ^ length fp * pow10 (exponent (CHR ''e'') r2))"

text \<open>A hexadecimal number starts with \<open>0x\<close> and a hexadecimal digit, before or after a point.\<close>

definition hex_start :: "string \<Rightarrow> bool" where
  "hex_start s =
     (case s of
        z # x # r \<Rightarrow>
          z = CHR ''0'' \<and> lower_eq x (CHR ''x'') \<and>
          (case r of
             [] \<Rightarrow> False
           | h # r' \<Rightarrow> is_xdigit h \<or> (h = CHR ''.'' \<and> r' \<noteq> [] \<and> is_xdigit (hd r')))
      | _ \<Rightarrow> False)"

definition hex_value :: "string \<Rightarrow> real" where
  "hex_value s =
     (let ip = takeWhile is_xdigit s;
          r1 = dropWhile is_xdigit s;
          fp = (case r1 of [] \<Rightarrow> [] | c # cs \<Rightarrow>
                  if c = CHR ''.'' then takeWhile is_xdigit cs else []);
          r2 = (case r1 of [] \<Rightarrow> [] | c # cs \<Rightarrow>
                  if c = CHR ''.'' then dropWhile is_xdigit cs else r1)
      in real (xdigits_val 0 (ip @ fp)) / 16 ^ length fp * pow2 (exponent (CHR ''p'') r2))"

definition unsigned_atof :: "string \<Rightarrow> fp" where
  "unsigned_atof s =
     (if ci_prefix ''inf'' s then PInf
      else if ci_prefix ''nan'' s then NaN
      else if hex_start s then c_double (hex_value (drop 2 s))
      else c_double (dec_value s))"

definition atof :: "string \<Rightarrow> fp" where
  "atof s =
     (case dropWhile is_space s of
        [] \<Rightarrow> Finite 0
      | c # cs \<Rightarrow>
          if c = CHR ''-'' then fp_neg (unsigned_atof cs)
          else if c = CHR ''+'' then unsigned_atof cs
          else unsigned_atof (c # cs))"

text \<open>
  A \<open>double\<close> constant of the source, written in decimal, passed for a \<open>float\<close> parameter.
\<close>

definition float_const :: "real \<Rightarrow> fp" where
  "float_const x = narrow (c_double x)"

subsection \<open>Enumerations, structures and errors\<close>

text \<open>
  The header \<open>pr.h\<close> is not part of the sources at hand; the enumerations carry the
  constants \<open>read_arch.c\<close> uses.  The routing mode is compared with \<open>DETAILED\<close> only.
\<close>

datatype e_route_type = NOT_DETAILED | DETAILED
datatype e_Fc_type = ABSOLUTE | FRACTIONAL
datatype e_switch_block_type = SUBSET | WILTON | UNIVERSAL
datatype e_stat = UNIFORM | GAUSSIAN | PULSE | DELTA
datatype e_pin_type = OPEN | DRIVER | RECEIVER
datatype e_block_type = CLB | IO | ILLEGAL

record s_chan =
  chan_type :: e_stat
  peak :: fp
  width :: fp
  xpeak :: fp
  dc :: fp

record s_det_routing_arch =
  Fc_type :: e_Fc_type
  Fc_output :: fp
  Fc_input :: fp
  Fc_pad :: fp
  switch_block_type :: e_switch_block_type

text \<open>
  A class: \<open>pinlist\<close> is the array allocated by the count pass, one cell for each pin of
  the class, \<open>None\<close> while the cell has not been written.
\<close>

record s_class =
  class_type :: e_pin_type
  num_pins :: nat
  pinlist :: "nat option list"

text \<open>
  A grid cell: \<open>block_type\<close> is \<open>None\<close> until \<open>fill_arch\<close> sets it; \<open>io_blocks\<close> is the
  pointer into the pad-slot pool that \<open>fill_arch\<close> allocates, given as the offset (in
  \<open>int\<close> cells) from the start of that one pool, \<open>None\<close> for a pointer never set.
\<close>

record s_clb =
  block_type :: "e_block_type option"
  io_blocks :: "int option"

text \<open>The diagnostics \<open>check_arch\<close> prints before it exits, one per offending field.\<close>

datatype diag =
    Not_set nat
  | Set_times nat nat
  | Clb_has nat nat

datatype error =
    Expected_class_keyword
  | Expected_class_number
  | Negative_class int
  | Class_not_used nat
  | Mixed_class nat
  | No_pin_locations
  | Bad_pin_location
  | Missing_Fc_type
  | Bad_Fc_type string
  | Missing_switch_block_type
  | Bad_switch_block_type string
  | Extra_characters
  | Missing_value nat
  | Bad_int_value nat int
  | Bad_float_value nat fp
  | Unknown_distribution nat string
  | Extra_value nat
  | Incomplete "diag list"
  | Unequal_channels
  | Fc_below_one
  | Fc_above_one
  | Size_too_small
  | One_location
  | Too_large int int
  | Undefined_behaviour

definition NUMINP :: nat where "NUMINP = 13"
definition NUM_DETAILED :: nat where "NUM_DETAILED = 5"

definition names :: "string list" where
  "names = [''io_rat'', ''chan_width_x'', ''chan_width_y'', ''chan_width_io'', ''outpin'',
     ''inpin'', ''subblocks_per_cluster'', ''subblock_lut_size'', ''Fc_output'',
     ''Fc_input'', ''Fc_pad'', ''Fc_type'', ''switch_block_type'']"

text \<open>
  The global variables.  \<open>isread\<close> counts the lines read for each of the thirteen
  keywords; \<open>pinloc\<close> has one row for each of the four sides; \<open>clb\<close> is the grid, indexed
  as \<open>clb[i][j]\<close> in the source, where \<open>alloc_matrix\<close> allocates \<open>0..nx+1\<close> by \<open>0..ny+1\<close>.
  Counters and indices that the code keeps nonnegative are natural numbers; the values
  that come out of \<open>atoi\<close>, casts and the command line are integers.
\<close>

record globals =
  isread :: "nat list"
  io_rat :: int
  chan_x_dist :: s_chan
  chan_y_dist :: s_chan
  chan_width_io :: fp
  max_subblocks_per_block :: int
  subblock_lut_size :: int
  num_class :: nat
  pins_per_clb :: nat
  class_inf :: "s_class list"
  clb_pin_class :: "nat option list"
  pinloc :: "int list list"
  num_clbs :: int
  num_p_inputs :: int
  num_p_outputs :: int
  nx :: int
  ny :: int
  clb :: "int \<times> int \<Rightarrow> s_clb"
  pool_size :: int

definition incr_isread :: "nat \<Rightarrow> globals \<Rightarrow> globals" where
  "incr_isread i g = g\<lparr>isread := (isread g)[i := isread g ! i + 1]\<rparr>"

subsection \<open>Scalar fields\<close>

text \<open>
  \<open>get_int\<close>: the next word is read with \<open>atoi\<close> and must be positive, nothing may
  follow it, and the counter of the field is incremented.
\<close>

definition get_int :: "tokens \<Rightarrow> nat \<Rightarrow> globals \<Rightarrow> error + (int \<times> globals)" where
  "get_int toks inp_num g =
     (case toks of
        [] \<Rightarrow> Inl (Missing_value inp_num)
      | t # rest \<Rightarrow>
          let val = atoi t in
          if val \<le> 0 then Inl (Bad_int_value inp_num val)
          else if rest \<noteq> [] then Inl Extra_characters
          else Inr (val, incr_isread inp_num g))"

text \<open>
  \<open>get_float\<close>: the next word is read with \<open>atof\<close> and stored in the \<open>float\<close> variable
  \<open>val\<close>; it is an error when \<open>val <= low_lim || val > upp_lim\<close>, a test that a
  not-a-number passes.  The routine neither looks at what follows the word nor touches
  \<open>isread\<close>; the words left on the line are returned to the caller.
\<close>

definition get_float :: "tokens \<Rightarrow> nat \<Rightarrow> fp \<Rightarrow> fp \<Rightarrow> error + (fp \<times> tokens)" where
  "get_float toks inp_num low_lim upp_lim =
     (case toks of
        [] \<Rightarrow> Inl (Missing_value inp_num)
      | t # rest \<Rightarrow>
          let val = narrow (atof t) in
          if fp_le val low_lim \<or> fp_lt upp_lim val then Inl (Bad_float_value inp_num val)
          else Inr (val, rest))"

subsection \<open>Pin lines\<close>

text \<open>
  \<open>get_class\<close> is called with the words after \<open>inpin\<close> or \<open>outpin\<close>: the sub-keyword
  \<open>class:\<close>, then the class number, read with \<open>atoi\<close> and rejected only when negative.
  It returns the class and the words after it.
\<close>

definition get_class :: "tokens \<Rightarrow> error + (nat \<times> tokens)" where
  "get_class toks =
     (case toks of
        [] \<Rightarrow> Inl Expected_class_keyword
      | k # r \<Rightarrow>
          if k \<noteq> ''class:'' then Inl Expected_class_keyword
          else
            (case r of
               [] \<Rightarrow> Inl Expected_class_number
             | t # rest \<Rightarrow>
                 let class = atoi t in
                 if class < 0 then Inl (Negative_class class)
                 else Inr (nat class, rest)))"

subsection \<open>The count pass\<close>

text \<open>
  One line of the scanning loop of \<open>countpass\<close>.  The state is \<open>num_class\<close> and the array
  \<open>pins_per_class\<close>, which holds \<open>num_class\<close> cells: when the class of a pin line is beyond
  the array, \<open>my_realloc\<close> extends it to \<open>class + 1\<close> cells and the new cells are zeroed.
  The rest of every line is skipped.
\<close>

fun countpass_line :: "nat \<times> nat list \<Rightarrow> tokens \<Rightarrow> error + (nat \<times> nat list)" where
  "countpass_line (n, ppc) [] = Inr (n, ppc)"
| "countpass_line (n, ppc) (kw # rest) =
     (if kw = ''inpin'' \<or> kw = ''outpin'' then
        (case get_class rest of
           Inl e \<Rightarrow> Inl e
         | Inr (class, _) \<Rightarrow>
             let (n', ppc') =
                   (if class \<ge> n then (class + 1, ppc @ replicate (class + 1 - n) 0)
                    else (n, ppc))
             in Inr (n', ppc'[class := ppc' ! class + 1]))
      else Inr (n, ppc))"

fun countpass_scan :: "nat \<times> nat list \<Rightarrow> tokens list \<Rightarrow> error + (nat \<times> nat list)" where
  "countpass_scan st [] = Inr st"
| "countpass_scan st (l # ls) =
     (case countpass_line st l of
        Inl e \<Rightarrow> Inl e
      | Inr st' \<Rightarrow> countpass_scan st' ls)"

text \<open>The loop that looks for a class without pins: the first index whose count is zero.\<close>

function missing_class :: "nat \<Rightarrow> nat \<Rightarrow> nat list \<Rightarrow> nat option" where
  "missing_class i n ppc =
     (if i < n then (if ppc ! i = 0 then Some i else missing_class (Suc i) n ppc)
      else None)"
  by pat_completeness auto
termination
  by (relation "measure (\<lambda>(i, n, ppc). n - i)") auto

definition countpass :: "tokens list \<Rightarrow> globals \<Rightarrow> error + globals" where
  "countpass ls g =
     (case countpass_scan (1, [0]) ls of
        Inl e \<Rightarrow> Inl e
      | Inr (n, ppc) \<Rightarrow>
          (case missing_class 0 n ppc of
             Some i \<Rightarrow> Inl (Class_not_used i)
           | None \<Rightarrow>
               let total = sum_list (map (\<lambda>i. ppc ! i) [0..<n]) in
               Inr (g\<lparr>num_class := n,
                       class_inf :=
                         map (\<lambda>i. \<lparr>class_type = OPEN, num_pins = 0,
                                    pinlist = replicate (ppc ! i) None\<rparr>) [0..<n],
                       pins_per_clb := total,
                       clb_pin_class := replicate total None\<rparr>)))"

subsection \<open>The loading pass\<close>

definition position :: "string list" where
  "position = [''top'', ''bottom'', ''left'', ''right'']"

text \<open>The inner loop of \<open>get_pin\<close>: the first of the four sides that equals the word.\<close>

fun find_position :: "string \<Rightarrow> nat \<Rightarrow> string list \<Rightarrow> nat option" where
  "find_position t i [] = None"
| "find_position t i (p # ps) = (if t = p then Some i else find_position t (Suc i) ps)"

text \<open>The \<open>do ... while\<close> loop of \<open>get_pin\<close>, entered with at least one word.\<close>

fun set_pinlocs :: "tokens \<Rightarrow> nat \<Rightarrow> int list list \<Rightarrow> error + int list list" where
  "set_pinlocs [] pinnum pl = Inr pl"
| "set_pinlocs (t # ts) pinnum pl =
     (case find_position t 0 position of
        None \<Rightarrow> Inl Bad_pin_location
      | Some i \<Rightarrow> set_pinlocs ts pinnum (pl[i := (pl ! i)[pinnum := 1]]))"

text \<open>
  \<open>get_pin\<close>.  The arrays it writes were sized by the count pass over the same file; an
  index beyond one of them, which C leaves undefined, is \<open>Undefined_behaviour\<close> here.
\<close>

definition get_pin :: "tokens \<Rightarrow> nat \<Rightarrow> e_pin_type \<Rightarrow> globals \<Rightarrow> error + globals" where
  "get_pin toks pinnum type g =
     (case get_class toks of
        Inl e \<Rightarrow> Inl e
      | Inr (class, rest) \<Rightarrow>
          if class \<ge> length (class_inf g) then Inl Undefined_behaviour
          else
            let ci = class_inf g ! class in
            if class_type ci \<noteq> OPEN \<and> class_type ci \<noteq> type then Inl (Mixed_class class)
            else
              let ipin = num_pins ci in
              if ipin \<ge> length (pinlist ci) \<or> pinnum \<ge> length (clb_pin_class g)
              then Inl Undefined_behaviour
              else
                let ci' = ci\<lparr>class_type := type,
                             pinlist := (pinlist ci)[ipin := Some pinnum],
                             num_pins := ipin + 1\<rparr>;
                    g' = g\<lparr>class_inf := (class_inf g)[class := ci'],
                           clb_pin_class := (clb_pin_class g)[pinnum := Some class]\<rparr>
                in
                  (case rest of
                     [] \<Rightarrow> Inl No_pin_locations
                   | _ # _ \<Rightarrow>
                       (case set_pinlocs rest pinnum (pinloc g') of
                          Inl e \<Rightarrow> Inl e
                        | Inr pl \<Rightarrow> Inr (g'\<lparr>pinloc := pl\<rparr>))))"

definition get_Fc_type :: "tokens \<Rightarrow> error + e_Fc_type" where
  "get_Fc_type toks =
     (case toks of
        [] \<Rightarrow> Inl Missing_Fc_type
      | t # rest \<Rightarrow>
          if t = ''absolute'' then (if rest \<noteq> [] then Inl Extra_characters else Inr ABSOLUTE)
          else if t = ''fractional'' then
            (if rest \<noteq> [] then Inl Extra_characters else Inr FRACTIONAL)
          else Inl (Bad_Fc_type t))"

definition get_switch_block_type :: "tokens \<Rightarrow> error + e_switch_block_type" where
  "get_switch_block_type toks =
     (case toks of
        [] \<Rightarrow> Inl Missing_switch_block_type
      | t # rest \<Rightarrow>
          if t = ''subset'' then (if rest \<noteq> [] then Inl Extra_characters else Inr SUBSET)
          else if t = ''wilton'' then (if rest \<noteq> [] then Inl Extra_characters else Inr WILTON)
          else if t = ''universal'' then
            (if rest \<noteq> [] then Inl Extra_characters else Inr UNIVERSAL)
          else Inl (Bad_switch_block_type t))"

subsection \<open>Channel distributions\<close>

text \<open>
  The three branches of \<open>get_chan\<close> on the distribution keyword.  Each returns the
  channel, the globals (for \<open>isread\<close>) and the words left on the line.  In the last
  branch the type of the channel is assigned only for \<open>gaussian\<close> and \<open>pulse\<close>, and it is
  the type found in the channel afterwards, whatever set it, that decides whether four
  numbers are read.
\<close>

definition chan_uniform ::
    "tokens \<Rightarrow> s_chan \<Rightarrow> nat \<Rightarrow> globals \<Rightarrow> error + (s_chan \<times> globals \<times> tokens)" where
  "chan_uniform r0 chan inp_num g =
     (case get_float r0 inp_num (float_const 0) (float_const 1) of
        Inl e \<Rightarrow> Inl e
      | Inr (p, r1) \<Rightarrow>
          Inr (chan\<lparr>chan_type := UNIFORM, peak := p, dc := float_const 0\<rparr>,
               incr_isread inp_num g, r1))"

definition chan_delta ::
    "tokens \<Rightarrow> s_chan \<Rightarrow> nat \<Rightarrow> globals \<Rightarrow> error + (s_chan \<times> globals \<times> tokens)" where
  "chan_delta r0 chan inp_num g =
     (case get_float r0 inp_num (float_const (- 100000)) (float_const 100000) of
        Inl e \<Rightarrow> Inl e
      | Inr (p, r1) \<Rightarrow>
     (case get_float r1 inp_num (float_const (- (1 / 10 ^ 30))) (float_const 1) of
        Inl e \<Rightarrow> Inl e
      | Inr (x, r2) \<Rightarrow>
     (case get_float r2 inp_num (float_const (- (1 / 10 ^ 30))) (float_const 1) of
        Inl e \<Rightarrow> Inl e
      | Inr (d, r3) \<Rightarrow>
          Inr (chan\<lparr>chan_type := DELTA, peak := p, xpeak := x, dc := d\<rparr>,
               incr_isread inp_num g, r3))))"

definition chan_other ::
    "string \<Rightarrow> tokens \<Rightarrow> s_chan \<Rightarrow> nat \<Rightarrow> globals \<Rightarrow> error + (s_chan \<times> globals \<times> tokens)" where
  "chan_other kw r0 chan inp_num g =
     (let chan1 = (if kw = ''gaussian'' then chan\<lparr>chan_type := GAUSSIAN\<rparr> else chan);
          chan2 = (if kw = ''pulse'' then chan1\<lparr>chan_type := PULSE\<rparr> else chan1)
      in
        if chan_type chan2 = GAUSSIAN \<or> chan_type chan2 = PULSE then
          (case get_float r0 inp_num (float_const (- 1)) (float_const 1) of
             Inl e \<Rightarrow> Inl e
           | Inr (p, r1) \<Rightarrow>
          (case get_float r1 inp_num (float_const 0) (float_const (10 ^ 10)) of
             Inl e \<Rightarrow> Inl e
           | Inr (w, r2) \<Rightarrow>
          (case get_float r2 inp_num (float_const (- (1 / 10 ^ 30))) (float_const 1) of
             Inl e \<Rightarrow> Inl e
           | Inr (x, r3) \<Rightarrow>
          (case get_float r3 inp_num (float_const (- (1 / 10 ^ 30))) (float_const 1) of
             Inl e \<Rightarrow> Inl e
           | Inr (d, r4) \<Rightarrow>
               Inr (chan2\<lparr>peak := p, width := w, xpeak := x, dc := d\<rparr>,
                    incr_isread inp_num g, r4)))))
        else Inr (chan2, g, r0))"

definition get_chan ::
    "tokens \<Rightarrow> s_chan \<Rightarrow> nat \<Rightarrow> globals \<Rightarrow> error + (s_chan \<times> globals)" where
  "get_chan toks chan inp_num g =
     (case toks of
        [] \<Rightarrow> Inl (Missing_value inp_num)
      | kw # r0 \<Rightarrow>
          (case (if kw = ''uniform'' then chan_uniform r0 chan inp_num g
                 else if kw = ''delta'' then chan_delta r0 chan inp_num g
                 else chan_other kw r0 chan inp_num g) of
             Inl e \<Rightarrow> Inl e
           | Inr (chan', g', r) \<Rightarrow>
               if isread g' ! inp_num = 0 then Inl (Unknown_distribution inp_num kw)
               else if r \<noteq> [] then Inl (Extra_value inp_num)
               else Inr (chan', g')))"

subsection \<open>The keyword dispatcher\<close>

text \<open>
  The body of the loading loop of \<open>read_arch\<close> for one line.  The state is the running
  pin number, the routing architecture the caller passed by reference, and the globals.
  An empty line and a line whose first word is none of the thirteen keywords change
  nothing.  The four float fields are read by \<open>get_float\<close> and counted here; the words
  \<open>get_float\<close> leaves on the line are dropped when the loop reads the next line.
\<close>

type_synonym load_state = "nat \<times> s_det_routing_arch \<times> globals"

fun read_arch_line :: "load_state \<Rightarrow> tokens \<Rightarrow> error + load_state" where
  "read_arch_line (pinnum, det, g) [] = Inr (pinnum, det, g)"
| "read_arch_line (pinnum, det, g) (kw # toks) =
     (if kw = names ! 0 then
        (case get_int toks 0 g of
           Inl e \<Rightarrow> Inl e
         | Inr (v, g') \<Rightarrow> Inr (pinnum, det, g'\<lparr>io_rat := v\<rparr>))
      else if kw = names ! 1 then
        (case get_chan toks (chan_x_dist g) 1 g of
           Inl e \<Rightarrow> Inl e
         | Inr (c, g') \<Rightarrow> Inr (pinnum, det, g'\<lparr>chan_x_dist := c\<rparr>))
      else if kw = names ! 2 then
        (case get_chan toks (chan_y_dist g) 2 g of
           Inl e \<Rightarrow> Inl e
         | Inr (c, g') \<Rightarrow> Inr (pinnum, det, g'\<lparr>chan_y_dist := c\<rparr>))
      else if kw = names ! 3 then
        (case get_float toks 3 (float_const 0) (float_const 5000) of
           Inl e \<Rightarrow> Inl e
         | Inr (v, _) \<Rightarrow> Inr (pinnum, det, incr_isread 3 (g\<lparr>chan_width_io := v\<rparr>)))
      else if kw = names ! 4 then
        (case get_pin toks pinnum DRIVER g of
           Inl e \<Rightarrow> Inl e
         | Inr g' \<Rightarrow> Inr (pinnum + 1, det, incr_isread 4 g'))
      else if kw = names ! 5 then
        (case get_pin toks pinnum RECEIVER g of
           Inl e \<Rightarrow> Inl e
         | Inr g' \<Rightarrow> Inr (pinnum + 1, det, incr_isread 5 g'))
      else if kw = names ! 6 then
        (case get_int toks 6 g of
           Inl e \<Rightarrow> Inl e
         | Inr (v, g') \<Rightarrow> Inr (pinnum, det, g'\<lparr>max_subblocks_per_block := v\<rparr>))
      else if kw = names ! 7 then
        (case get_int toks 7 g of
           Inl e \<Rightarrow> Inl e
         | Inr (v, g') \<Rightarrow> Inr (pinnum, det, g'\<lparr>subblock_lut_size := v\<rparr>))
      else if kw = names ! 8 then
        (case get_float toks 8 (float_const 0) (float_const (10 ^ 20)) of
           Inl e \<Rightarrow> Inl e
         | Inr (v, _) \<Rightarrow> Inr (pinnum, det\<lparr>Fc_output := v\<rparr>, incr_isread 8 g))
      else if kw = names ! 9 then
        (case get_float toks 9 (float_const 0) (float_const (10 ^ 20)) of
           Inl e \<Rightarrow> Inl e
         | Inr (v, _) \<Rightarrow> Inr (pinnum, det\<lparr>Fc_input := v\<rparr>, incr_isread 9 g))
      else if kw = names ! 10 then
        (case get_float toks 10 (float_const 0) (float_const (10 ^ 20)) of
           Inl e \<Rightarrow> Inl e
         | Inr (v, _) \<Rightarrow> Inr (pinnum, det\<lparr>Fc_pad := v\<rparr>, incr_isread 10 g))
      else if kw = names ! 11 then
        (case get_Fc_type toks of
           Inl e \<Rightarrow> Inl e
         | Inr t \<Rightarrow> Inr (pinnum, det\<lparr>Fc_type := t\<rparr>, incr_isread 11 g))
      else if kw = names ! 12 then
        (case get_switch_block_type toks of
           Inl e \<Rightarrow> Inl e
         | Inr t \<Rightarrow> Inr (pinnum, det\<lparr>switch_block_type := t\<rparr>, incr_isread 12 g))
      else Inr (pinnum, det, g))"

fun read_arch_lines :: "load_state \<Rightarrow> tokens list \<Rightarrow> error + load_state" where
  "read_arch_lines st [] = Inr st"
| "read_arch_lines st (l # ls) =
     (case read_arch_line st l of
        Inl e \<Rightarrow> Inl e
      | Inr st' \<Rightarrow> read_arch_lines st' ls)"

subsection \<open>Validation\<close>

text \<open>
  The body of the loop of \<open>check_arch\<close> for the field \<open>i\<close>: the state is the flag \<open>fatal\<close>
  and what has been printed so far.
\<close>

definition check_field :: "nat list \<Rightarrow> nat \<Rightarrow> bool \<times> diag list \<Rightarrow> bool \<times> diag list" where
  "check_field rd i st =
     (if i \<noteq> 4 \<and> i \<noteq> 5 then
        (let st1 = (if rd ! i = 0 then (True, snd st @ [Not_set i]) else st)
         in if rd ! i > 1 then (True, snd st1 @ [Set_times i (rd ! i)]) else st1)
      else
        (if rd ! i < 1 then (True, snd st @ [Clb_has i (rd ! i)]) else st))"

function check_fields :: "nat list \<Rightarrow> nat \<Rightarrow> nat \<Rightarrow> bool \<times> diag list \<Rightarrow> bool \<times> diag list" where
  "check_fields rd num_to_check i st =
     (if i < num_to_check then check_fields rd num_to_check (Suc i) (check_field rd i st)
      else st)"
  by pat_completeness auto
termination
  by (relation "measure (\<lambda>(rd, num_to_check, i, st). num_to_check - i)") auto

definition num_to_check :: "e_route_type \<Rightarrow> nat" where
  "num_to_check route_type = (if route_type = DETAILED then NUMINP else NUMINP - NUM_DETAILED)"

definition check_arch :: "e_route_type \<Rightarrow> s_det_routing_arch \<Rightarrow> globals \<Rightarrow> error + unit" where
  "check_arch route_type det g =
     (let (fatal, out) = check_fields (isread g) (num_to_check route_type) 0 (False, [])
      in
        if fatal then Inl (Incomplete out)
        else if route_type = DETAILED then
          (if chan_type (chan_x_dist g) \<noteq> UNIFORM \<or> chan_type (chan_y_dist g) \<noteq> UNIFORM
              \<or> \<not> fp_eq (peak (chan_x_dist g)) (peak (chan_y_dist g))
              \<or> \<not> fp_eq (peak (chan_x_dist g)) (chan_width_io g)
           then Inl Unequal_channels
           else if Fc_type det = ABSOLUTE then
             (if fp_lt (Fc_output det) (Finite 1) \<or> fp_lt (Fc_input det) (Finite 1)
                 \<or> fp_lt (Fc_pad det) (Finite 1)
              then Inl Fc_below_one else Inr ())
           else
             (if fp_lt (Finite 1) (Fc_output det) \<or> fp_lt (Finite 1) (Fc_input det)
                 \<or> fp_lt (Finite 1) (Fc_pad det)
              then Inl Fc_above_one else Inr ()))
        else Inr ())"

subsection \<open>The loader\<close>

text \<open>
  \<open>read_arch\<close>: the count pass, the reset of \<open>isread\<close> and of the pin locations, the
  loading pass over the same lines, and the validation.
\<close>

definition read_arch ::
    "tokens list \<Rightarrow> e_route_type \<Rightarrow> s_det_routing_arch \<Rightarrow> globals
       \<Rightarrow> error + (s_det_routing_arch \<times> globals)" where
  "read_arch ls route_type det g =
     (case countpass ls g of
        Inl e \<Rightarrow> Inl e
      | Inr g1 \<Rightarrow>
          let g2 = g1\<lparr>isread := replicate NUMINP 0,
                      pinloc := replicate 4 (replicate (pins_per_clb g1) 0)\<rparr>
          in
            (case read_arch_lines (0, det, g2) ls of
               Inl e \<Rightarrow> Inl e
             | Inr (pinnum, det', g3) \<Rightarrow>
                 (case check_arch route_type det' g3 of
                    Inl e \<Rightarrow> Inl e
                  | Inr _ \<Rightarrow> Inr (det', g3))))"

subsection \<open>The grid\<close>

text \<open>The loop \<open>for (i = lo; i <= hi; i++)\<close> over a state.\<close>

function for_loop :: "int \<Rightarrow> int \<Rightarrow> (int \<Rightarrow> 's \<Rightarrow> 's) \<Rightarrow> 's \<Rightarrow> 's" where
  "for_loop i hi body s = (if i \<le> hi then for_loop (i + 1) hi body (body i s) else s)"
  by pat_completeness auto
termination
  by (relation "measure (\<lambda>(i, hi, body, s). nat (hi + 1 - i))") auto

type_synonym grid = "int \<times> int \<Rightarrow> s_clb"

definition set_io_blocks :: "int \<times> int \<Rightarrow> int \<Rightarrow> grid \<Rightarrow> grid" where
  "set_io_blocks xy index c = c(xy := (c xy)\<lparr>io_blocks := Some index\<rparr>)"

definition set_type :: "int \<times> int \<Rightarrow> e_block_type \<Rightarrow> grid \<Rightarrow> grid" where
  "set_type xy t c = c(xy := (c xy)\<lparr>block_type := Some t\<rparr>)"

text \<open>
  The two loops that hand out the pool: the state is the grid and the pointer \<open>index\<close>,
  an offset from the start of the pool.
\<close>

definition carve_x :: "int \<Rightarrow> int \<Rightarrow> int \<Rightarrow> grid \<times> int \<Rightarrow> grid \<times> int" where
  "carve_x io_rt n_y i st =
     (let (c, index) = st;
          c1 = set_io_blocks (i, 0) index c;
          index1 = index + io_rt;
          c2 = set_io_blocks (i, n_y + 1) index1 c1;
          index2 = index1 + io_rt
      in (c2, index2))"

definition carve_y :: "int \<Rightarrow> int \<Rightarrow> int \<Rightarrow> grid \<times> int \<Rightarrow> grid \<times> int" where
  "carve_y io_rt n_x i st =
     (let (c, index) = st;
          c1 = set_io_blocks (0, i) index c;
          index1 = index + io_rt;
          c2 = set_io_blocks (n_x + 1, i) index1 c1;
          index2 = index1 + io_rt
      in (c2, index2))"

definition fill_arch :: "globals \<Rightarrow> globals" where
  "fill_arch g =
     (let size = 2 * io_rat g * (nx g + ny g);
          st1 = for_loop 1 (nx g) (carve_x (io_rat g) (ny g)) (clb g, 0);
          st2 = for_loop 1 (ny g) (carve_y (io_rat g) (nx g)) st1;
          c3 = for_loop 1 (nx g)
                 (\<lambda>i c. set_type (i, ny g + 1) IO (set_type (i, 0) IO c)) (fst st2);
          c4 = for_loop 1 (ny g)
                 (\<lambda>i c. set_type (nx g + 1, i) IO (set_type (0, i) IO c)) c3;
          c5 = for_loop 1 (nx g)
                 (\<lambda>i c. for_loop 1 (ny g) (\<lambda>j c'. set_type (i, j) CLB c') c) c4;
          c6 = set_type (0, 0) ILLEGAL (set_type (nx g + 1, 0) ILLEGAL c5);
          c7 = set_type (0, ny g + 1) ILLEGAL (set_type (nx g + 1, ny g + 1) ILLEGAL c6)
      in g\<lparr>clb := c7, pool_size := size\<rparr>)"






text \<open>
  \<open>init_arch\<close>.  \<open>alloc_matrix\<close> returns cells that nothing has written yet: no type and no
  pointer.
\<close>

definition fresh_clb :: grid where
  "fresh_clb = (\<lambda>xy. \<lparr>block_type = None, io_blocks = None\<rparr>)"


subsection \<open>The state at program start\<close>

text \<open>
  The variables of the program have static storage and start at zero: the numbers are
  \<open>0\<close>, the pointers are null (an array with no cell), and an enumeration holds its first
  constant, which for the channel type is taken to be \<open>UNIFORM\<close>, the order in which
  \<open>print_arch\<close> lists the four constants.  The routing architecture belongs to the caller
  of \<open>read_arch\<close>; \<open>zero_det\<close> is one with all numbers zero.
\<close>

definition zero_chan :: s_chan where
  "zero_chan = \<lparr>chan_type = UNIFORM, peak = Finite 0, width = Finite 0, xpeak = Finite 0,
     dc = Finite 0\<rparr>"

definition zero_det :: s_det_routing_arch where
  "zero_det = \<lparr>Fc_type = ABSOLUTE, Fc_output = Finite 0, Fc_input = Finite 0,
     Fc_pad = Finite 0, switch_block_type = SUBSET\<rparr>"

definition zero_globals :: globals where
  "zero_globals = \<lparr>isread = replicate NUMINP 0, io_rat = 0, chan_x_dist = zero_chan,
     chan_y_dist = zero_chan, chan_width_io = Finite 0, max_subblocks_per_block = 0,
     subblock_lut_size = 0, num_class = 0, pins_per_clb = 0, class_inf = [],
     clb_pin_class = [], pinloc = [], num_clbs = 0, num_p_inputs = 0, num_p_outputs = 0,
     nx = 0, ny = 0, clb = fresh_clb, pool_size = 0\<rparr>"

subsection \<open>Notions used to state the properties\<close>

text \<open>
  A word starts a number for \<open>atoi\<close> when, after white space and one optional sign, a
  digit follows.
\<close>

definition starts_number :: "string \<Rightarrow> bool" where
  "starts_number s =
     (case dropWhile is_space s of
        [] \<Rightarrow> False
      | c # cs \<Rightarrow>
          if c = CHR ''-'' \<or> c = CHR ''+'' then cs \<noteq> [] \<and> is_digit (hd cs)
          else is_digit c)"

text \<open>A pin line, and the class indices that the pin lines of a file use.\<close>

definition is_pin_line :: "tokens \<Rightarrow> bool" where
  "is_pin_line l \<longleftrightarrow> l \<noteq> [] \<and> (hd l = ''inpin'' \<or> hd l = ''outpin'')"

definition line_class :: "tokens \<Rightarrow> nat option" where
  "line_class l =
     (if is_pin_line l then
        (case get_class (tl l) of Inl e \<Rightarrow> None | Inr (c, r) \<Rightarrow> Some c)
      else None)"

definition classes_used :: "tokens list \<Rightarrow> nat list" where
  "classes_used ls = List.map_filter line_class ls"

text \<open>
  The completeness rule for the field \<open>i\<close> in words of occurrence counts: a pin keyword
  (fields 4 and 5) needs at least one line, every other field exactly one.
\<close>

definition violates :: "nat list \<Rightarrow> nat \<Rightarrow> bool" where
  "violates rd i \<longleftrightarrow>
     (if i = 4 \<or> i = 5 then rd ! i < 1 else rd ! i = 0 \<or> rd ! i > 1)"

definition field_diags :: "nat list \<Rightarrow> nat \<Rightarrow> diag list" where
  "field_diags rd i =
     (if i = 4 \<or> i = 5 then (if rd ! i < 1 then [Clb_has i (rd ! i)] else [])
      else if rd ! i = 0 then [Not_set i]
      else if rd ! i > 1 then [Set_times i (rd ! i)]
      else [])"

text \<open>
  The invariant of the scanning loop of the count pass, for the classes \<open>cs\<close> of the pin
  lines read so far: the array has \<open>num_class\<close> cells, each cell counts the lines of its
  class, every class read is below \<open>num_class\<close>, and \<open>num_class\<close> is 1 or one more than
  a class read.
\<close>

definition count_inv :: "nat \<Rightarrow> nat list \<Rightarrow> nat list \<Rightarrow> bool" where
  "count_inv n ppc cs \<longleftrightarrow>
     length ppc = n \<and> 1 \<le> n \<and> (\<forall>i<n. ppc ! i = count_list cs i) \<and>
     (\<forall>c\<in>set cs. c < n) \<and> (n = 1 \<or> n - 1 \<in> set cs)"

section \<open>Properties\<close>

lemmas number_defs =
  atoi_def is_space_def is_digit_def digit_val_def

lemmas atof_defs =
  atof_def unsigned_atof_def dec_value_def hex_value_def hex_start_def exponent_def pow10_def
  lower_eq_def is_xdigit_def xdigit_val_def is_space_def is_digit_def digit_val_def

subsection \<open>Numbers and counters\<close>

lemma digits_val_no_digit: "cs = [] \<or> \<not> is_digit (hd cs) \<Longrightarrow> digits_val acc cs = acc"
  by (cases cs) auto

lemma atoi_not_number: "\<not> starts_number t \<Longrightarrow> atoi t = 0"
proof (cases "dropWhile is_space t")
  case Nil
  then show ?thesis unfolding atoi_def by (simp only: list.case)
next
  case (Cons c cs)
  assume a: "\<not> starts_number t"
  show ?thesis
  proof (cases "c = CHR ''-'' \<or> c = CHR ''+''")
    case True
    with a Cons have "cs = [] \<or> \<not> is_digit (hd cs)"
      by (auto simp: starts_number_def)
    then have "digits_val 0 cs = 0" by (rule digits_val_no_digit)
    with True Cons show ?thesis by (auto simp: atoi_def)
  next
    case False
    with a Cons have "\<not> is_digit c" by (auto simp: starts_number_def)
    with False Cons show ?thesis by (auto simp: atoi_def)
  qed
qed

lemma atoi_0: "atoi ''0'' = 0"
  by (simp add: number_defs)

lemma atoi_2: "atoi ''2'' = 2"
  by (simp add: number_defs)

lemma atoi_1: "atoi ''1'' = 1"
  by (simp add: number_defs)

lemma not_starts_number_abc: "\<not> starts_number ''abc''"
  by (simp add: starts_number_def is_space_def is_digit_def)

lemma isread_incr_isread:
  "isread (incr_isread i g) = (isread g)[i := isread g ! i + 1]"
  by (simp add: incr_isread_def)


lemma names_nth:
  "names ! 0 = ''io_rat''" "names ! 1 = ''chan_width_x''" "names ! 2 = ''chan_width_y''"
  "names ! 3 = ''chan_width_io''" "names ! 4 = ''outpin''" "names ! 5 = ''inpin''"
  "names ! 6 = ''subblocks_per_cluster''" "names ! 7 = ''subblock_lut_size''"
  "names ! 8 = ''Fc_output''" "names ! 9 = ''Fc_input''" "names ! 10 = ''Fc_pad''"
  "names ! 11 = ''Fc_type''" "names ! 12 = ''switch_block_type''"
  by (simp_all add: names_def)

subsection \<open>Rounding, evaluated\<close>

text \<open>
  A positive number with \<open>2 ^ e \<le> x < 2 ^ (e + 1)\<close> has the exponent \<open>e\<close>; with the exponent
  known, a rounding is a computation on numerals.
\<close>

lemma pow2_powr: "pow2 e = 2 powr (of_int e)"
  by (simp add: pow2_def powr_int)

lemma pow2_pos: "0 < pow2 e"
  by (simp add: pow2_powr)

lemma floor_log2:
  assumes "pow2 e \<le> x" "x < pow2 (e + 1)"
  shows "\<lfloor>log 2 x\<rfloor> = e"
proof -
  have x: "0 < x" using assms(1) pow2_pos [of e] by linarith
  show ?thesis
    using assms x by (simp add: floor_log_eq_powr_iff pow2_powr)
qed

lemma round_to_pos:
  assumes "pow2 e \<le> x" "x < pow2 (e + 1)" "emin \<le> e"
  shows "round_to p emin emax x =
     (if pow2 (emax + 1) \<le> of_int (rne (x / pow2 (e - int p + 1))) * pow2 (e - int p + 1)
      then PInf
      else Finite (of_int (rne (x / pow2 (e - int p + 1))) * pow2 (e - int p + 1)))"
proof -
  have x: "0 < x" using assms(1) pow2_pos [of e] by linarith
  have "\<lfloor>log 2 \<bar>x\<bar>\<rfloor> = e" using floor_log2 [OF assms(1,2)] x by simp
  then show ?thesis using x assms(3) by (simp add: round_to_def Let_def max_def)
qed

lemma round_to_minus: "round_to p emin emax (- x) = fp_neg (round_to p emin emax x)"
  by (cases "x = 0"; cases "x < 0") (auto simp: round_to_def Let_def)

lemma c_float_minus: "c_float (- x) = fp_neg (c_float x)"
  by (simp add: c_float_def round_to_minus)

lemma c_double_minus: "c_double (- x) = fp_neg (c_double x)"
  by (simp add: c_double_def round_to_minus)

lemma c_float_0: "c_float 0 = Finite 0" by (simp add: c_float_def round_to_def)
lemma c_double_0: "c_double 0 = Finite 0" by (simp add: c_double_def round_to_def)

lemma c_double_1: "c_double 1 = Finite 1"
  unfolding c_double_def
  by (subst round_to_pos [where e = 0]) (simp_all add: pow2_def rne_def)

lemma c_float_1: "c_float 1 = Finite 1"
  unfolding c_float_def
  by (subst round_to_pos [where e = 0]) (simp_all add: pow2_def rne_def)

lemma c_double_half: "c_double (1 / 2) = Finite (1 / 2)"
  unfolding c_double_def
  by (subst round_to_pos [where e = "- 1"]) (simp_all add: pow2_def rne_def)

lemma c_float_half: "c_float (1 / 2) = Finite (1 / 2)"
  unfolding c_float_def
  by (subst round_to_pos [where e = "- 1"]) (simp_all add: pow2_def rne_def)

lemma c_double_100000: "c_double 100000 = Finite 100000"
  unfolding c_double_def
  by (subst round_to_pos [where e = 16]) (simp_all add: pow2_def rne_def)

lemma c_float_100000: "c_float 100000 = Finite 100000"
  unfolding c_float_def
  by (subst round_to_pos [where e = 16]) (simp_all add: pow2_def rne_def)

lemma c_double_16: "c_double 16 = Finite 16"
  unfolding c_double_def
  by (subst round_to_pos [where e = 4]) (simp_all add: pow2_def rne_def)

lemma c_double_5000: "c_double 5000 = Finite 5000"
  unfolding c_double_def
  by (subst round_to_pos [where e = 12]) (simp_all add: pow2_def rne_def)

lemma c_float_5000: "c_float 5000 = Finite 5000"
  unfolding c_float_def
  by (subst round_to_pos [where e = 12]) (simp_all add: pow2_def rne_def)

lemma c_double_100000_001: "c_double (100000001 / 1000) = Finite (6871947742319477 / 68719476736)"
  unfolding c_double_def
  by (subst round_to_pos [where e = 16]) (simp_all add: pow2_def rne_def)

lemma c_float_100000_001: "c_float (6871947742319477 / 68719476736) = Finite 100000"
  unfolding c_float_def
  by (subst round_to_pos [where e = 16]) (simp_all add: pow2_def rne_def)

lemma c_double_99999_999: "c_double (99999999 / 1000) = Finite (6871947604880523 / 68719476736)"
  unfolding c_double_def
  by (subst round_to_pos [where e = 16]) (simp_all add: pow2_def rne_def)

lemma c_float_99999_999: "c_float (6871947604880523 / 68719476736) = Finite 100000"
  unfolding c_float_def
  by (subst round_to_pos [where e = 16]) (simp_all add: pow2_def rne_def)

lemma c_double_tiny:
  "c_double (1 / 10 ^ 30) = Finite (178405961588245 / 178405961588244985132285746181186892047843328)"
  unfolding c_double_def
  by (subst round_to_pos [where e = "- 100"]) (simp_all add: pow2_def rne_def)

lemma c_float_tiny:
  "c_float (178405961588245 / 178405961588244985132285746181186892047843328)
     = Finite (332307 / 332306998946228968225951765070086144)"
  unfolding c_float_def
  by (subst round_to_pos [where e = "- 100"]) (simp_all add: pow2_def rne_def)

lemma float_const_values:
  "float_const 0 = Finite 0" "float_const 1 = Finite 1"
  "float_const 100000 = Finite 100000" "float_const (- 100000) = Finite (- 100000)"
  "float_const 5000 = Finite 5000"
  by (simp_all add: float_const_def c_double_minus c_float_minus c_double_0 c_float_0 c_double_1
      c_float_1 c_double_100000 c_float_100000 c_double_5000 c_float_5000 c_double_tiny
      c_float_tiny)


lemma atof_values:
  "atof ''1'' = Finite 1" "atof ''1.0'' = Finite 1" "atof ''0.5'' = Finite (1 / 2)"
  "atof ''1e5'' = Finite 100000" "atof ''-1e5'' = Finite (- 100000)"
  "atof ''100000.001'' = Finite (6871947742319477 / 68719476736)"
  "atof ''-99999.999'' = Finite (- (6871947604880523 / 68719476736))"
  "atof ''nan'' = NaN" "atof ''NaN'' = NaN" "atof ''inf'' = PInf" "atof ''-Infinity'' = NInf"
  by (simp_all add: atof_defs c_double_1 c_double_half c_double_100000 c_double_minus
      c_double_100000_001 c_double_99999_999)

lemma atof_hex: "atof ''0x10'' = Finite 16" "atof ''0x.8p1'' = Finite 1" "atof ''0x'' = Finite 0"
  by (simp_all add: atof_defs c_double_1 c_double_0 c_double_16 pow2_def)

subsection \<open>The readers, one word at a time\<close>

lemma get_float_Cons:
  "get_float (t # rest) inp_num lo hi =
     (if fp_le (narrow (atof t)) lo \<or> fp_lt hi (narrow (atof t))
      then Inl (Bad_float_value inp_num (narrow (atof t)))
      else Inr (narrow (atof t), rest))"
  by (simp add: get_float_def Let_def)


lemma get_int_Inr_iff:
  "(get_int toks inp_num g = Inr (v, g')) \<longleftrightarrow>
     (\<exists>t. toks = [t] \<and> v = atoi t \<and> 0 < v \<and> g' = incr_isread inp_num g)"
  by (cases toks) (auto simp: get_int_def Let_def)

lemma get_class_Cons:
  "get_class (''class:'' # t # rest) =
     (if atoi t < 0 then Inl (Negative_class (atoi t)) else Inr (nat (atoi t), rest))"
  by (simp add: get_class_def Let_def)

subsection \<open>A class number that is not a number\<close>

text \<open>
  C9.  On a pin line whose class word does not start a number, \<open>atoi\<close> gives 0: the
  class reader returns class 0 instead of failing, the count pass and the loading pass
  treat the line exactly as if \<open>0\<close> had been written, and a pin that is loaded is
  recorded in class 0.  With the sub-keyword and the class word present, the class
  reader fails only when the integer value of the word is negative.
\<close>

theorem non_numeric_class_is_class_0:
  "(\<not> starts_number t \<longrightarrow>
      get_class (''class:'' # t # rest) = Inr (0, rest) \<and>
      countpass_line st (kw # ''class:'' # t # rest)
        = countpass_line st (kw # ''class:'' # ''0'' # rest) \<and>
      get_pin (''class:'' # t # rest) pinnum type g
        = get_pin (''class:'' # ''0'' # rest) pinnum type g \<and>
      (get_pin (''class:'' # t # rest) pinnum type g = Inr g'
         \<longrightarrow> clb_pin_class g' ! pinnum = Some 0)) \<and>
   ((\<exists>e. get_class (''class:'' # t # rest) = Inl e) \<longleftrightarrow> atoi t < 0)"
proof (intro conjI impI)
  assume a: "\<not> starts_number t"
  show c: "get_class (''class:'' # t # rest) = Inr (0, rest)"
    using a by (simp add: get_class_Cons atoi_not_number)
  have c0: "get_class (''class:'' # ''0'' # rest) = Inr (0, rest)"
    by (simp add: get_class_Cons atoi_0)
  show "countpass_line st (kw # ''class:'' # t # rest)
          = countpass_line st (kw # ''class:'' # ''0'' # rest)"
    by (cases st) (simp add: c c0)
  show "get_pin (''class:'' # t # rest) pinnum type g
          = get_pin (''class:'' # ''0'' # rest) pinnum type g"
    unfolding get_pin_def c c0 ..
  assume b: "get_pin (''class:'' # t # rest) pinnum type g = Inr g'"
  show "clb_pin_class g' ! pinnum = Some 0"
    using b unfolding get_pin_def c
    by (auto simp: Let_def split: if_splits list.splits sum.splits)
next
  show "(\<exists>e. get_class (''class:'' # t # rest) = Inl e) \<longleftrightarrow> atoi t < 0"
    by (simp add: get_class_Cons)
qed

lemma get_pin_example:
  "get_pin [''class:'', ''abc'', ''top''] 0 DRIVER
     (zero_globals\<lparr>class_inf := [\<lparr>class_type = OPEN, num_pins = 0, pinlist = [None]\<rparr>],
        clb_pin_class := [None], pinloc := [[0], [0], [0], [0]]\<rparr>)
   = Inr (zero_globals\<lparr>class_inf := [\<lparr>class_type = DRIVER, num_pins = 1, pinlist = [Some 0]\<rparr>],
        clb_pin_class := [Some 0], pinloc := [[1], [0], [0], [0]]\<rparr>)"
  by (simp add: get_pin_def get_class_Cons atoi_not_number not_starts_number_abc Let_def
      position_def zero_globals_def)

theorem non_numeric_class_is_class_0_witness:
  "\<not> starts_number ''abc'' \<and>
   get_class [''class:'', ''abc'', ''top''] = Inr (0, [''top'']) \<and>
   get_pin [''class:'', ''abc'', ''top''] 0 DRIVER
     (zero_globals\<lparr>class_inf := [\<lparr>class_type = OPEN, num_pins = 0, pinlist = [None]\<rparr>],
        clb_pin_class := [None], pinloc := [[0], [0], [0], [0]]\<rparr>)
   = Inr (zero_globals\<lparr>class_inf := [\<lparr>class_type = DRIVER, num_pins = 1, pinlist = [Some 0]\<rparr>],
        clb_pin_class := [Some 0], pinloc := [[1], [0], [0], [0]]\<rparr>) \<and>
   clb_pin_class
     (zero_globals\<lparr>class_inf := [\<lparr>class_type = DRIVER, num_pins = 1, pinlist = [Some 0]\<rparr>],
        clb_pin_class := [Some 0], pinloc := [[1], [0], [0], [0]]\<rparr>) ! 0 = Some 0"
  using not_starts_number_abc get_pin_example
    non_numeric_class_is_class_0 [of "''abc''" "[''top'']" "(1, [0])" "''outpin''" 0 DRIVER
      "zero_globals\<lparr>class_inf := [\<lparr>class_type = OPEN, num_pins = 0, pinlist = [None]\<rparr>],
        clb_pin_class := [None], pinloc := [[0], [0], [0], [0]]\<rparr>"
      "zero_globals\<lparr>class_inf := [\<lparr>class_type = DRIVER, num_pins = 1, pinlist = [Some 0]\<rparr>],
        clb_pin_class := [Some 0], pinloc := [[1], [0], [0], [0]]\<rparr>"]
  by blast

subsection \<open>A file without pin lines\<close>

lemma countpass_scan_no_pin_lines:
  "\<forall>l\<in>set ls. \<not> is_pin_line l \<Longrightarrow> countpass_scan (n, ppc) ls = Inr (n, ppc)"
proof (induction ls)
  case Nil
  then show ?case by simp
next
  case (Cons l ls)
  then have "\<not> is_pin_line l" by simp
  then have "countpass_line (n, ppc) l = Inr (n, ppc)"
    by (cases l) (auto simp: is_pin_line_def)
  with Cons show ?case by simp
qed

text \<open>
  C10.  When no line of the file is an \<open>inpin\<close> or \<open>outpin\<close> line, the count pass stops
  with the error that class index 0 is not used, and so does \<open>read_arch\<close>: the error is
  that of the count pass, not a completeness diagnostic of \<open>check_arch\<close>.
\<close>

theorem no_pin_lines_class_0_not_used:
  "\<forall>l\<in>set ls. \<not> is_pin_line l \<Longrightarrow>
     countpass ls g = Inl (Class_not_used 0) \<and>
     read_arch ls route_type det g = Inl (Class_not_used 0)"
proof -
  assume "\<forall>l\<in>set ls. \<not> is_pin_line l"
  then have "countpass_scan (1, [0]) ls = Inr (1, [0])"
    by (rule countpass_scan_no_pin_lines)
  then have "countpass ls g = Inl (Class_not_used 0)"
    by (simp add: countpass_def)
  then show ?thesis by (simp add: read_arch_def)
qed

theorem no_pin_lines_class_0_not_used_witness:
  "list_all (\<lambda>l. \<not> is_pin_line l) [[''io_rat'', ''2''], [], [''chan_width_io'', ''1'']] \<and>
   countpass [[''io_rat'', ''2''], [], [''chan_width_io'', ''1'']] zero_globals
     = Inl (Class_not_used 0) \<and>
   read_arch [[''io_rat'', ''2''], [], [''chan_width_io'', ''1'']] NOT_DETAILED zero_det
     zero_globals = Inl (Class_not_used 0)"
proof -
  have h: "\<forall>l\<in>set [[''io_rat'', ''2''], [], [''chan_width_io'', ''1'']]. \<not> is_pin_line l"
    by (simp add: is_pin_line_def)
  show ?thesis
    using h no_pin_lines_class_0_not_used [OF h, of zero_globals NOT_DETAILED zero_det]
    by simp
qed

subsection \<open>The peak of a delta distribution\<close>

lemma c_double_1e20: "c_double (10 ^ 20) = Finite (10 ^ 20)"
  unfolding c_double_def
  by (subst round_to_pos [where e = 66]) (simp_all add: pow2_def rne_def)

lemma c_float_1e20: "c_float (10 ^ 20) = Finite 100000002004087734272"
  unfolding c_float_def
  by (subst round_to_pos [where e = 66]) (simp_all add: pow2_def rne_def)

lemma float_const_1e20: "float_const (10 ^ 20) = Finite 100000002004087734272"
  unfolding float_const_def c_double_1e20 narrow.simps c_float_1e20 ..

lemma narrow_atof_values:
  "narrow (atof ''1'') = Finite 1" "narrow (atof ''1.0'') = Finite 1"
  "narrow (atof ''0.5'') = Finite (1 / 2)"
  "narrow (atof ''1e5'') = Finite 100000" "narrow (atof ''-1e5'') = Finite (- 100000)"
  "narrow (atof ''100000.001'') = Finite 100000"
  "narrow (atof ''-99999.999'') = Finite (- 100000)"
  "narrow (atof ''nan'') = NaN"
  by (simp_all add: atof_values c_float_1 c_float_half c_float_100000 c_float_minus
      c_float_100000_001 c_float_99999_999)






subsection \<open>Scalar field lines\<close>

lemma read_arch_line_float_fields:
  "read_arch_line (pinnum, det, g) (''chan_width_io'' # toks) =
     (case get_float toks 3 (float_const 0) (float_const 5000) of
        Inl e \<Rightarrow> Inl e
      | Inr (v, _) \<Rightarrow> Inr (pinnum, det, incr_isread 3 (g\<lparr>chan_width_io := v\<rparr>)))"
  "read_arch_line (pinnum, det, g) (''Fc_output'' # toks) =
     (case get_float toks 8 (float_const 0) (float_const (10 ^ 20)) of
        Inl e \<Rightarrow> Inl e
      | Inr (v, _) \<Rightarrow> Inr (pinnum, det\<lparr>Fc_output := v\<rparr>, incr_isread 8 g))"
  "read_arch_line (pinnum, det, g) (''Fc_input'' # toks) =
     (case get_float toks 9 (float_const 0) (float_const (10 ^ 20)) of
        Inl e \<Rightarrow> Inl e
      | Inr (v, _) \<Rightarrow> Inr (pinnum, det\<lparr>Fc_input := v\<rparr>, incr_isread 9 g))"
  "read_arch_line (pinnum, det, g) (''Fc_pad'' # toks) =
     (case get_float toks 10 (float_const 0) (float_const (10 ^ 20)) of
        Inl e \<Rightarrow> Inl e
      | Inr (v, _) \<Rightarrow> Inr (pinnum, det\<lparr>Fc_pad := v\<rparr>, incr_isread 10 g))"
  by (simp_all add: names_def)

lemma read_arch_line_chan_x:
  "read_arch_line (pinnum, det, g) (''chan_width_x'' # toks) =
     (case get_chan toks (chan_x_dist g) 1 g of
        Inl e \<Rightarrow> Inl e
      | Inr (c, g') \<Rightarrow> Inr (pinnum, det, g'\<lparr>chan_x_dist := c\<rparr>))"
  by (simp add: names_def)

lemma read_arch_line_checked_fields:
  "read_arch_line (pinnum, det, g) (''io_rat'' # toks) =
     (case get_int toks 0 g of
        Inl e \<Rightarrow> Inl e
      | Inr (v, g') \<Rightarrow> Inr (pinnum, det, g'\<lparr>io_rat := v\<rparr>))"
  "read_arch_line (pinnum, det, g) (''Fc_type'' # toks) =
     (case get_Fc_type toks of
        Inl e \<Rightarrow> Inl e
      | Inr t \<Rightarrow> Inr (pinnum, det\<lparr>Fc_type := t\<rparr>, incr_isread 11 g))"
  "read_arch_line (pinnum, det, g) (''switch_block_type'' # toks) =
     (case get_switch_block_type toks of
        Inl e \<Rightarrow> Inl e
      | Inr t \<Rightarrow> Inr (pinnum, det\<lparr>switch_block_type := t\<rparr>, incr_isread 12 g))"
  by (simp_all add: names_def)

declare read_arch_line.simps [simp del]

lemma get_float_1_0_junk:
  "get_float [''1.0'', ''junk''] k (float_const 0) (float_const 5000) = Inr (Finite 1, [''junk''])"
  "get_float [''1.0'', ''junk''] k (float_const 0) (float_const (10 ^ 20)) = Inr (Finite 1, [''junk''])"
  unfolding float_const_1e20
  by (simp_all add: get_float_Cons narrow_atof_values float_const_values)

lemma get_chan_uniform_1:
  "get_chan [''uniform'', ''1''] zero_chan 1 zero_globals
     = Inr (zero_chan\<lparr>chan_type := UNIFORM, peak := Finite 1, dc := Finite 0\<rparr>,
            incr_isread 1 zero_globals)"
  by (simp add: get_chan_def chan_uniform_def get_float_Cons narrow_atof_values
      float_const_values zero_globals_def NUMINP_def incr_isread_def)

lemma get_chan_uniform_1_junk:
  "get_chan [''uniform'', ''1'', ''junk''] zero_chan 1 zero_globals = Inl (Extra_value 1)"
  by (simp add: get_chan_def chan_uniform_def get_float_Cons narrow_atof_values
      float_const_values zero_globals_def NUMINP_def incr_isread_def)

text \<open>
  C1.  A \<open>chan_width_io\<close>, \<open>Fc_output\<close>, \<open>Fc_input\<close> or \<open>Fc_pad\<close> line with a word after
  its value is read without an error: \<open>get_float\<close> does not look at the rest of the line
  and \<open>read_arch\<close> goes on to the next line.  The same extra word is fatal on the lines
  read by \<open>get_int\<close>, \<open>get_Fc_type\<close>, \<open>get_switch_block_type\<close> and \<open>get_chan\<close>.
\<close>

theorem float_line_extra_token_accepted:
  "read_arch_line (0, zero_det, zero_globals) [''chan_width_io'', ''1.0'', ''junk'']
     = Inr (0, zero_det, incr_isread 3 (zero_globals\<lparr>chan_width_io := Finite 1\<rparr>)) \<and>
   read_arch_line (0, zero_det, zero_globals) [''Fc_output'', ''1.0'', ''junk'']
     = Inr (0, zero_det\<lparr>Fc_output := Finite 1\<rparr>, incr_isread 8 zero_globals) \<and>
   read_arch_line (0, zero_det, zero_globals) [''Fc_input'', ''1.0'', ''junk'']
     = Inr (0, zero_det\<lparr>Fc_input := Finite 1\<rparr>, incr_isread 9 zero_globals) \<and>
   read_arch_line (0, zero_det, zero_globals) [''Fc_pad'', ''1.0'', ''junk'']
     = Inr (0, zero_det\<lparr>Fc_pad := Finite 1\<rparr>, incr_isread 10 zero_globals) \<and>
   read_arch_line (0, zero_det, zero_globals) [''io_rat'', ''2'', ''junk'']
     = Inl Extra_characters \<and>
   read_arch_line (0, zero_det, zero_globals) [''Fc_type'', ''absolute'', ''junk'']
     = Inl Extra_characters \<and>
   read_arch_line (0, zero_det, zero_globals) [''switch_block_type'', ''subset'', ''junk'']
     = Inl Extra_characters \<and>
   read_arch_line (0, zero_det, zero_globals) [''chan_width_x'', ''uniform'', ''1'', ''junk'']
     = Inl (Extra_value 1)"
proof (intro conjI)
  show "read_arch_line (0, zero_det, zero_globals) [''chan_width_io'', ''1.0'', ''junk'']
     = Inr (0, zero_det, incr_isread 3 (zero_globals\<lparr>chan_width_io := Finite 1\<rparr>))"
    unfolding read_arch_line_float_fields get_float_1_0_junk by simp
  show "read_arch_line (0, zero_det, zero_globals) [''Fc_output'', ''1.0'', ''junk'']
     = Inr (0, zero_det\<lparr>Fc_output := Finite 1\<rparr>, incr_isread 8 zero_globals)"
    unfolding read_arch_line_float_fields get_float_1_0_junk by simp
  show "read_arch_line (0, zero_det, zero_globals) [''Fc_input'', ''1.0'', ''junk'']
     = Inr (0, zero_det\<lparr>Fc_input := Finite 1\<rparr>, incr_isread 9 zero_globals)"
    unfolding read_arch_line_float_fields get_float_1_0_junk by simp
  show "read_arch_line (0, zero_det, zero_globals) [''Fc_pad'', ''1.0'', ''junk'']
     = Inr (0, zero_det\<lparr>Fc_pad := Finite 1\<rparr>, incr_isread 10 zero_globals)"
    unfolding read_arch_line_float_fields get_float_1_0_junk by simp
  show "read_arch_line (0, zero_det, zero_globals) [''io_rat'', ''2'', ''junk'']
     = Inl Extra_characters"
    by (simp add: read_arch_line_checked_fields get_int_def atoi_2)
  show "read_arch_line (0, zero_det, zero_globals) [''Fc_type'', ''absolute'', ''junk'']
     = Inl Extra_characters"
    by (simp add: read_arch_line_checked_fields get_Fc_type_def)
  show "read_arch_line (0, zero_det, zero_globals) [''switch_block_type'', ''subset'', ''junk'']
     = Inl Extra_characters"
    by (simp add: read_arch_line_checked_fields get_switch_block_type_def)
  have "chan_x_dist zero_globals = zero_chan" by (simp add: zero_globals_def)
  then show "read_arch_line (0, zero_det, zero_globals)
       [''chan_width_x'', ''uniform'', ''1'', ''junk''] = Inl (Extra_value 1)"
    unfolding read_arch_line_chan_x by (simp only: get_chan_uniform_1_junk sum.case)
qed

subsection \<open>An unknown distribution keyword\<close>

lemma get_chan_unknown_after_first:
  "isread g ! inp_num \<noteq> 0 \<Longrightarrow> kw \<noteq> ''uniform'' \<Longrightarrow> kw \<noteq> ''delta'' \<Longrightarrow>
   kw \<noteq> ''gaussian'' \<Longrightarrow> kw \<noteq> ''pulse'' \<Longrightarrow> chan_type chan \<noteq> GAUSSIAN \<Longrightarrow>
   chan_type chan \<noteq> PULSE \<Longrightarrow> get_chan [kw] chan inp_num g = Inr (chan, g)"
  by (simp add: get_chan_def chan_other_def)

text \<open>
  C3.  \<open>get_chan\<close> recognises an unknown keyword by \<open>isread[inp_num] == 0\<close>, a counter that
  earlier lines of the file have incremented.  After a \<open>chan_width_x uniform 1\<close> line, the
  line \<open>chan_width_x foo\<close> is read without an error and changes nothing, although the same
  line is fatal when it comes first.
\<close>

theorem unknown_distribution_after_earlier_line:
  "read_arch_lines (0, zero_det, zero_globals)
     [[''chan_width_x'', ''uniform'', ''1''], [''chan_width_x'', ''foo'']]
   = Inr (0, zero_det,
        incr_isread 1 zero_globals
          \<lparr>chan_x_dist := zero_chan\<lparr>chan_type := UNIFORM, peak := Finite 1, dc := Finite 0\<rparr>\<rparr>) \<and>
   read_arch_lines (0, zero_det, zero_globals) [[''chan_width_x'', ''foo'']]
   = Inl (Unknown_distribution 1 ''foo'')"
proof -
  let ?g1 = "incr_isread 1 zero_globals
          \<lparr>chan_x_dist := zero_chan\<lparr>chan_type := UNIFORM, peak := Finite 1, dc := Finite 0\<rparr>\<rparr>"
  have "chan_x_dist zero_globals = zero_chan"
    by (simp add: zero_globals_def)
  then have 1: "read_arch_line (0, zero_det, zero_globals) [''chan_width_x'', ''uniform'', ''1'']
     = Inr (0, zero_det, ?g1)"
    unfolding read_arch_line_chan_x by (simp only: get_chan_uniform_1 sum.case prod.case)
  have "get_chan [''foo''] (chan_x_dist ?g1) 1 ?g1 = Inr (chan_x_dist ?g1, ?g1)"
    by (rule get_chan_unknown_after_first)
      (simp_all add: incr_isread_def zero_globals_def NUMINP_def)
  then have 2: "read_arch_line (0, zero_det, ?g1) [''chan_width_x'', ''foo'']
     = Inr (0, zero_det, ?g1)"
    by (simp add: read_arch_line_chan_x)
  have "get_chan [''foo''] (chan_x_dist zero_globals) 1 zero_globals
          = Inl (Unknown_distribution 1 ''foo'')"
    by (simp add: get_chan_def chan_other_def zero_globals_def zero_chan_def NUMINP_def Let_def)
  then have 3: "read_arch_line (0, zero_det, zero_globals) [''chan_width_x'', ''foo'']
     = Inl (Unknown_distribution 1 ''foo'')"
    by (simp add: read_arch_line_chan_x)
  show ?thesis by (simp only: read_arch_lines.simps 1 2 3 sum.case simp_thms)
qed


subsection \<open>Completeness of the description\<close>

text \<open>
  The loops defined by \<^theory_text>\<open>function\<close> are unfolded one step at a time from
  here on.
\<close>

declare check_fields.simps [simp del] missing_class.simps [simp del] for_loop.simps [simp del]

lemma check_field_eq:
  "check_field rd i st = (fst st \<or> violates rd i, snd st @ field_diags rd i)"
  by (cases st) (auto simp: check_field_def violates_def field_diags_def Let_def)

lemma check_fields_eq:
  "check_fields rd n i st =
     (fst st \<or> (\<exists>j. i \<le> j \<and> j < n \<and> violates rd j),
      snd st @ concat (map (field_diags rd) [i..<n]))"
proof (induction rd n i st rule: check_fields.induct)
  case (1 rd n i st)
  show ?case
  proof (cases "i < n")
    case True
    have s: "i \<le> j \<longleftrightarrow> j = i \<or> Suc i \<le> j" for j by arith
    have e: "(\<exists>j. i \<le> j \<and> j < n \<and> violates rd j) \<longleftrightarrow>
               violates rd i \<or> (\<exists>j. Suc i \<le> j \<and> j < n \<and> violates rd j)"
      unfolding s using True by blast
    have "check_fields rd n i st = check_fields rd n (Suc i) (check_field rd i st)"
      using True by (subst check_fields.simps) simp
    also have "\<dots> = (fst (check_field rd i st) \<or> (\<exists>j. Suc i \<le> j \<and> j < n \<and> violates rd j),
        snd (check_field rd i st) @ concat (map (field_diags rd) [Suc i..<n]))"
      using True by (rule "1.IH")
    finally show ?thesis using True e by (simp add: upt_conv_Cons check_field_eq)
  next
    case False
    then show ?thesis by (subst check_fields.simps) (cases st, auto)
  qed
qed

lemma check_arch_Incomplete_iff:
  "check_arch rt det g = Inl (Incomplete ds) \<longleftrightarrow>
     (\<exists>i<num_to_check rt. violates (isread g) i) \<and>
     ds = concat (map (field_diags (isread g)) [0..<num_to_check rt])"
  by (auto simp: check_arch_def check_fields_eq)

lemma violates_iff_diags: "violates rd i \<longleftrightarrow> field_diags rd i \<noteq> []"
  by (auto simp: violates_def field_diags_def)

text \<open>
  C4.  \<open>check_arch\<close> stops with the completeness error exactly when one of the fields it
  checks (all 13 in detailed mode, the first 8 otherwise) breaks its rule: a count of 0
  or above 1 for every field but the two pin keywords, a count below 1 for \<open>outpin\<close>
  (field 4) and \<open>inpin\<close> (field 5).  What it has printed when it stops is the diagnostics
  of all offending fields, in the order of the fields, so each offending field is in the
  one report.
\<close>

theorem check_arch_completeness:
  "((\<exists>ds. check_arch rt det g = Inl (Incomplete ds)) \<longleftrightarrow>
      (\<exists>i<num_to_check rt.
         if i = 4 \<or> i = 5 then isread g ! i < 1 else isread g ! i = 0 \<or> 1 < isread g ! i)) \<and>
   (check_arch rt det g = Inl (Incomplete ds) \<longrightarrow>
      ds = concat (map (field_diags (isread g)) [0..<num_to_check rt]) \<and>
      (\<forall>i<num_to_check rt.
         (i \<noteq> 4 \<and> i \<noteq> 5 \<and> isread g ! i = 0 \<longrightarrow> Not_set i \<in> set ds) \<and>
         (i \<noteq> 4 \<and> i \<noteq> 5 \<and> 1 < isread g ! i \<longrightarrow> Set_times i (isread g ! i) \<in> set ds) \<and>
         ((i = 4 \<or> i = 5) \<and> isread g ! i < 1 \<longrightarrow> Clb_has i (isread g ! i) \<in> set ds))) \<and>
   num_to_check DETAILED = 13 \<and>
   (rt \<noteq> DETAILED \<longrightarrow> num_to_check rt = 8)"
proof (intro conjI impI)
  show "(\<exists>ds. check_arch rt det g = Inl (Incomplete ds)) \<longleftrightarrow>
      (\<exists>i<num_to_check rt.
         if i = 4 \<or> i = 5 then isread g ! i < 1 else isread g ! i = 0 \<or> 1 < isread g ! i)"
    by (simp add: check_arch_Incomplete_iff violates_def)
next
  assume a: "check_arch rt det g = Inl (Incomplete ds)"
  then show d: "ds = concat (map (field_diags (isread g)) [0..<num_to_check rt])"
    by (simp add: check_arch_Incomplete_iff)
  show "\<forall>i<num_to_check rt.
         (i \<noteq> 4 \<and> i \<noteq> 5 \<and> isread g ! i = 0 \<longrightarrow> Not_set i \<in> set ds) \<and>
         (i \<noteq> 4 \<and> i \<noteq> 5 \<and> 1 < isread g ! i \<longrightarrow> Set_times i (isread g ! i) \<in> set ds) \<and>
         ((i = 4 \<or> i = 5) \<and> isread g ! i < 1 \<longrightarrow> Clb_has i (isread g ! i) \<in> set ds)"
  proof (intro allI impI)
    fix i assume i: "i < num_to_check rt"
    then have "set (field_diags (isread g) i) \<subseteq> set ds"
      unfolding d by auto
    then show "(i \<noteq> 4 \<and> i \<noteq> 5 \<and> isread g ! i = 0 \<longrightarrow> Not_set i \<in> set ds) \<and>
         (i \<noteq> 4 \<and> i \<noteq> 5 \<and> 1 < isread g ! i \<longrightarrow> Set_times i (isread g ! i) \<in> set ds) \<and>
         ((i = 4 \<or> i = 5) \<and> isread g ! i < 1 \<longrightarrow> Clb_has i (isread g ! i) \<in> set ds)"
      by (auto simp: field_diags_def split: if_splits)
  qed
next
  show "num_to_check DETAILED = 13"
    by (simp add: num_to_check_def NUMINP_def)
next
  assume "rt \<noteq> DETAILED"
  then show "num_to_check rt = 8"
    by (simp add: num_to_check_def NUMINP_def NUM_DETAILED_def)
qed

theorem check_arch_completeness_witness:
  "check_arch NOT_DETAILED zero_det (zero_globals\<lparr>isread := [0, 2, 1, 1, 0, 1, 1, 1, 0, 0, 0, 0, 0]\<rparr>)
     = Inl (Incomplete [Not_set 0, Set_times 1 2, Clb_has 4 0])"
proof -
  let ?g = "zero_globals\<lparr>isread := [0, 2, 1, 1, 0, 1, 1, 1, 0, 0, 0, 0, 0]\<rparr>"
  note t = check_arch_completeness [of NOT_DETAILED zero_det ?g]
  have upt8: "[0..<8] = [0, 1, 2, 3, 4, 5, 6, 7]" by code_simp
  have n: "num_to_check NOT_DETAILED = 8" using t by simp
  have "\<exists>i<num_to_check NOT_DETAILED.
         if i = 4 \<or> i = 5 then isread ?g ! i < 1 else isread ?g ! i = 0 \<or> 1 < isread ?g ! i"
    unfolding n by (rule exI [of _ 0]) simp
  with t obtain ds where ds: "check_arch NOT_DETAILED zero_det ?g = Inl (Incomplete ds)"
    by blast
  with check_arch_completeness [of NOT_DETAILED zero_det ?g ds]
  have "ds = concat (map (field_diags (isread ?g)) [0..<num_to_check NOT_DETAILED])"
    by blast
  also have "\<dots> = [Not_set 0, Set_times 1 2, Clb_has 4 0]"
    unfolding n upt8 by (simp add: field_diags_def)
  finally show ?thesis using ds by simp
qed

subsection \<open>Cross-field checks of detailed routing\<close>

text \<open>
  C5.  In detailed mode, when every one of the 13 fields passes its completeness rule,
  \<open>check_arch\<close> fails exactly when the two channels are not both uniform with the same
  peak, equal to \<open>chan_width_io\<close>, or \<open>Fc_type\<close> is absolute and one of the three \<open>Fc\<close>
  values is below 1, or \<open>Fc_type\<close> is fractional and one of them is above 1.  The
  comparisons are those of C on \<open>float\<close> values: on finite values they are the
  comparisons of the real numbers.
\<close>

theorem check_arch_cross_field:
  "\<forall>i<13. if i = 4 \<or> i = 5 then 1 \<le> isread g ! i else isread g ! i = 1 \<Longrightarrow>
   (check_arch DETAILED det g \<noteq> Inr () \<longleftrightarrow>
      \<not> (chan_type (chan_x_dist g) = UNIFORM \<and> chan_type (chan_y_dist g) = UNIFORM \<and>
         fp_eq (peak (chan_x_dist g)) (peak (chan_y_dist g)) \<and>
         fp_eq (peak (chan_x_dist g)) (chan_width_io g)) \<or>
      (Fc_type det = ABSOLUTE \<and>
         (fp_lt (Fc_output det) (Finite 1) \<or> fp_lt (Fc_input det) (Finite 1) \<or>
          fp_lt (Fc_pad det) (Finite 1))) \<or>
      (Fc_type det = FRACTIONAL \<and>
         (fp_lt (Finite 1) (Fc_output det) \<or> fp_lt (Finite 1) (Fc_input det) \<or>
          fp_lt (Finite 1) (Fc_pad det)))) \<and>
   check_arch DETAILED det g \<in> {Inr (), Inl Unequal_channels, Inl Fc_below_one, Inl Fc_above_one}"
proof -
  assume a: "\<forall>i<13. if i = 4 \<or> i = 5 then 1 \<le> isread g ! i else isread g ! i = 1"
  have "\<not> violates (isread g) j" if "j < 13" for j
    using a [rule_format, OF that] by (auto simp: violates_def split: if_splits)
  then have "\<not> (\<exists>j<num_to_check DETAILED. violates (isread g) j)"
    by (simp add: num_to_check_def NUMINP_def)
  then have f: "check_fields (isread g) (num_to_check DETAILED) 0 (False, []) = (False, [])"
    by (auto simp: check_fields_eq violates_iff_diags)
  show ?thesis
    unfolding check_arch_def f
    by (cases "Fc_type det") auto
qed

theorem check_arch_cross_field_witness:
  "check_arch DETAILED zero_det
     (zero_globals\<lparr>isread := replicate 13 1,
        chan_x_dist := zero_chan\<lparr>peak := Finite 1\<rparr>, chan_y_dist := zero_chan\<lparr>peak := Finite 1\<rparr>,
        chan_width_io := Finite 1\<rparr>) \<noteq> Inr () \<and>
   check_arch DETAILED (zero_det\<lparr>Fc_output := Finite 1, Fc_input := Finite 2, Fc_pad := Finite 3\<rparr>)
     (zero_globals\<lparr>isread := replicate 13 1,
        chan_x_dist := zero_chan\<lparr>peak := Finite 1\<rparr>, chan_y_dist := zero_chan\<lparr>peak := Finite 1\<rparr>,
        chan_width_io := Finite 1\<rparr>) = Inr ()"
proof -
  let ?g = "zero_globals\<lparr>isread := replicate 13 1,
        chan_x_dist := zero_chan\<lparr>peak := Finite 1\<rparr>, chan_y_dist := zero_chan\<lparr>peak := Finite 1\<rparr>,
        chan_width_io := Finite 1\<rparr>"
  have h: "\<forall>i<13. if i = 4 \<or> i = 5 then 1 \<le> isread ?g ! i else isread ?g ! i = 1"
    by simp
  show ?thesis
    using check_arch_cross_field [OF h, of zero_det]
      check_arch_cross_field [OF h,
        of "zero_det\<lparr>Fc_output := Finite 1, Fc_input := Finite 2, Fc_pad := Finite 3\<rparr>"]
    by (simp add: zero_det_def zero_chan_def)
qed

subsection \<open>Consecutive classes\<close>

lemma countpass_line_not_pin:
  "line_class l = None \<Longrightarrow> countpass_line (n, ppc) l = Inr (n', ppc') \<Longrightarrow> n' = n \<and> ppc' = ppc"
  by (cases l) (auto simp: line_class_def is_pin_line_def split: if_splits sum.splits)

lemma countpass_line_pin:
  "line_class l = Some c \<Longrightarrow>
     countpass_line (n, ppc) l =
       (if n \<le> c then Inr (c + 1, (ppc @ replicate (c + 1 - n) 0)[c := (ppc @ replicate (c + 1 - n) 0) ! c + 1])
        else Inr (n, ppc[c := ppc ! c + 1]))"
  by (cases l) (auto simp: line_class_def is_pin_line_def split: if_splits sum.splits)

lemma countpass_line_total:
  "is_pin_line l \<longrightarrow> line_class l \<noteq> None \<Longrightarrow> \<exists>st'. countpass_line (n, ppc) l = Inr st'"
  by (cases l) (auto simp: line_class_def is_pin_line_def Let_def split: if_splits sum.splits prod.splits)

lemma count_inv_step:
  assumes inv: "count_inv n ppc cs"
  shows "n \<le> c \<Longrightarrow>
           count_inv (c + 1) ((ppc @ replicate (c + 1 - n) 0)[c := (ppc @ replicate (c + 1 - n) 0) ! c + 1])
             (cs @ [c])"
    and "\<not> n \<le> c \<Longrightarrow> count_inv n (ppc[c := ppc ! c + 1]) (cs @ [c])"
proof -
  from inv have len: "length ppc = n" and n1: "1 \<le> n"
    and cnt: "\<And>i. i < n \<Longrightarrow> ppc ! i = count_list cs i"
    and bound: "\<And>c. c \<in> set cs \<Longrightarrow> c < n"
    and top: "n = 1 \<or> n - 1 \<in> set cs"
    by (auto simp: count_inv_def)
  have zero: "count_list cs i = 0" if "n \<le> i" for i
    using bound that by (metis count_list_0_iff not_le)
  {
    assume c: "n \<le> c"
    let ?e = "ppc @ replicate (c + 1 - n) 0"
    have le: "length ?e = c + 1" using len c by simp
    have e: "?e ! i = count_list cs i" if "i < c + 1" for i
      using that len cnt zero by (cases "i < n") (auto simp: nth_append)
    show "count_inv (c + 1) (?e[c := ?e ! c + 1]) (cs @ [c])"
      unfolding count_inv_def
    proof (intro conjI)
      show "length (?e[c := ?e ! c + 1]) = c + 1" using le by simp
      show "1 \<le> c + 1" by simp
      show "\<forall>i<c + 1. ?e[c := ?e ! c + 1] ! i = count_list (cs @ [c]) i"
        using e le by (auto simp: nth_list_update)
      show "\<forall>c'\<in>set (cs @ [c]). c' < c + 1"
        using bound c by fastforce
      show "c + 1 = 1 \<or> c + 1 - 1 \<in> set (cs @ [c])" by simp
    qed
  }
  {
    assume c: "\<not> n \<le> c"
    show "count_inv n (ppc[c := ppc ! c + 1]) (cs @ [c])"
      unfolding count_inv_def
    proof (intro conjI)
      show "length (ppc[c := ppc ! c + 1]) = n" using len by simp
      show "1 \<le> n" by (rule n1)
      show "\<forall>i<n. ppc[c := ppc ! c + 1] ! i = count_list (cs @ [c]) i"
        using cnt len by (auto simp: nth_list_update)
      show "\<forall>c'\<in>set (cs @ [c]). c' < n"
        using bound c by auto
      show "n = 1 \<or> n - 1 \<in> set (cs @ [c])" using top by auto
    qed
  }
qed

lemma classes_used_Cons:
  "classes_used (l # ls) = (case line_class l of None \<Rightarrow> [] | Some c \<Rightarrow> [c]) @ classes_used ls"
  by (simp add: classes_used_def split: option.splits)

lemma countpass_scan_inv:
  "countpass_scan (n, ppc) ls = Inr (n', ppc') \<Longrightarrow> count_inv n ppc cs \<Longrightarrow>
     count_inv n' ppc' (cs @ classes_used ls)"
proof (induction ls arbitrary: n ppc cs)
  case Nil
  then show ?case by (simp add: classes_used_def)
next
  case (Cons l ls)
  from Cons.prems(1) obtain n1 ppc1 where
    l: "countpass_line (n, ppc) l = Inr (n1, ppc1)"
    and r: "countpass_scan (n1, ppc1) ls = Inr (n', ppc')"
    by (auto split: sum.splits)
  show ?case
  proof (cases "line_class l")
    case None
    have "n1 = n \<and> ppc1 = ppc" by (rule countpass_line_not_pin [OF None l])
    with Cons.IH [OF r, of cs] Cons.prems(2) None show ?thesis
      by (simp add: classes_used_Cons)
  next
    case (Some c)
    have "count_inv n1 ppc1 (cs @ [c])"
      using l count_inv_step [OF Cons.prems(2), of c]
      unfolding countpass_line_pin [OF Some] by (auto split: if_splits)
    from Cons.IH [OF r this] Some show ?thesis
      by (simp add: classes_used_Cons)
  qed
qed

lemma countpass_scan_total:
  "\<forall>l\<in>set ls. is_pin_line l \<longrightarrow> line_class l \<noteq> None \<Longrightarrow>
     \<exists>st'. countpass_scan st ls = Inr st'"
proof (induction ls arbitrary: st)
  case Nil
  then show ?case by simp
next
  case (Cons l ls)
  obtain n ppc where st: "st = (n, ppc)" by (cases st)
  from Cons.prems have "is_pin_line l \<longrightarrow> line_class l \<noteq> None" by simp
  then obtain st1 where "countpass_line (n, ppc) l = Inr st1"
    using countpass_line_total by blast
  with Cons st show ?case by simp
qed

lemma missing_class_None:
  "missing_class i n ppc = None \<longleftrightarrow> (\<forall>j. i \<le> j \<and> j < n \<longrightarrow> ppc ! j \<noteq> 0)"
proof (induction i n ppc rule: missing_class.induct)
  case (1 i n ppc)
  have s: "i \<le> j \<longleftrightarrow> j = i \<or> Suc i \<le> j" for j by arith
  show ?case
  proof (cases "i < n \<and> ppc ! i \<noteq> 0")
    case True
    then have "missing_class i n ppc = missing_class (Suc i) n ppc"
      by (subst missing_class.simps) simp
    with True "1.IH" show ?thesis unfolding s by auto
  next
    case False
    then show ?thesis by (subst missing_class.simps) auto
  qed
qed

lemma missing_class_Some:
  "missing_class i n ppc = Some k \<Longrightarrow>
     i \<le> k \<and> k < n \<and> ppc ! k = 0 \<and> (\<forall>j. i \<le> j \<and> j < k \<longrightarrow> ppc ! j \<noteq> 0)"
proof (induction i n ppc rule: missing_class.induct)
  case (1 i n ppc)
  have s: "i \<le> j \<longleftrightarrow> j = i \<or> Suc i \<le> j" for j by arith
  show ?case
  proof (cases "i < n \<and> ppc ! i \<noteq> 0")
    case True
    then have "missing_class i n ppc = missing_class (Suc i) n ppc"
      by (subst missing_class.simps) simp
    with True "1.IH" "1.prems" show ?thesis unfolding s by auto
  next
    case False
    with "1.prems" show ?thesis by (subst (asm) missing_class.simps) (auto split: if_splits)
  qed
qed

lemma count_inv_init: "count_inv 1 [0] []"
  by (simp add: count_inv_def)

lemma countpass_Inr:
  "countpass ls g = Inr g' \<Longrightarrow>
     \<exists>ppc. countpass_scan (1, [0]) ls = Inr (num_class g', ppc) \<and>
           missing_class 0 (num_class g') ppc = None"
  by (auto simp: countpass_def Let_def split: sum.splits option.splits)

lemma countpass_Class_not_used:
  "countpass ls g = Inl (Class_not_used i) \<Longrightarrow>
     \<exists>n ppc. countpass_scan (1, [0]) ls = Inr (n, ppc) \<and> missing_class 0 n ppc = Some i"
proof -
  assume a: "countpass ls g = Inl (Class_not_used i)"
  have "countpass_line st l \<noteq> Inl (Class_not_used i)" for st l
    by (cases st; cases l) (auto simp: get_class_def Let_def split: sum.splits list.splits if_splits)
  then have "countpass_scan st ls \<noteq> Inl (Class_not_used i)" for st
    by (induction ls arbitrary: st) (auto split: sum.splits)
  with a show ?thesis
    by (auto simp: countpass_def Let_def split: sum.splits option.splits)
qed

lemma countpass_Inr_contiguous:
  "countpass ls g = Inr g' \<Longrightarrow>
     0 < num_class g' \<and> set (classes_used ls) = {0..<num_class g'}"
proof -
  assume "countpass ls g = Inr g'"
  then obtain ppc where s: "countpass_scan (1, [0]) ls = Inr (num_class g', ppc)"
    and m: "missing_class 0 (num_class g') ppc = None"
    using countpass_Inr by blast
  from countpass_scan_inv [OF s count_inv_init]
  have inv: "count_inv (num_class g') ppc (classes_used ls)" by simp
  then have p: "0 < num_class g'" by (simp add: count_inv_def)
  from m have "\<forall>j<num_class g'. ppc ! j \<noteq> 0" by (simp add: missing_class_None)
  with inv have "\<forall>j<num_class g'. j \<in> set (classes_used ls)"
    by (auto simp: count_inv_def count_list_0_iff)
  moreover from inv have "\<forall>c\<in>set (classes_used ls). c < num_class g'"
    by (simp add: count_inv_def)
  ultimately have "set (classes_used ls) = {0..<num_class g'}" by auto
  with p show ?thesis by simp
qed

lemma read_arch_countpass:
  "read_arch ls route_type det g = Inr r \<Longrightarrow> \<exists>g1. countpass ls g = Inr g1"
  by (cases "countpass ls g") (simp_all add: read_arch_def)

text \<open>
  C6.  When the count pass succeeds, the class indices used on the pin lines of the file
  are exactly \<open>0, ..., num_class - 1\<close>, a contiguous range that starts at 0.  When it
  stops because a class is not used, the index it reports is the least unused one, and
  it is 0 or below a class that is used.  And when every pin line has a well-formed class
  and some index \<open>j\<close> that is 0 or below a used class is itself not used, the count pass
  does stop with that error, reporting an index up to \<open>j\<close>.  A file that \<open>read_arch\<close>
  loads successfully has passed the count pass, so its classes are such a range.
\<close>

theorem countpass_classes_contiguous:
  "(countpass ls g = Inr g' \<longrightarrow>
      0 < num_class g' \<and> set (classes_used ls) = {0..<num_class g'}) \<and>
   (countpass ls g = Inl (Class_not_used i) \<longrightarrow>
      i \<notin> set (classes_used ls) \<and> (\<forall>k<i. k \<in> set (classes_used ls)) \<and>
      (i = 0 \<or> (\<exists>c\<in>set (classes_used ls). i < c))) \<and>
   ((\<forall>l\<in>set ls. is_pin_line l \<longrightarrow> line_class l \<noteq> None) \<and>
    j \<notin> set (classes_used ls) \<and> (j = 0 \<or> (\<exists>c\<in>set (classes_used ls). j < c)) \<longrightarrow>
      (\<exists>i\<le>j. countpass ls g = Inl (Class_not_used i))) \<and>
   (read_arch ls route_type det g = Inr (det', g'') \<longrightarrow>
      (\<exists>n>0. set (classes_used ls) = {0..<n}))"
proof (intro conjI impI)
  assume "read_arch ls route_type det g = Inr (det', g'')"
  then obtain g1 where "countpass ls g = Inr g1"
    using read_arch_countpass by blast
  then have "0 < num_class g1 \<and> set (classes_used ls) = {0..<num_class g1}"
    by (rule countpass_Inr_contiguous)
  then show "\<exists>n>0. set (classes_used ls) = {0..<n}" by blast
next
  assume "countpass ls g = Inr g'"
  then show "0 < num_class g'" and "set (classes_used ls) = {0..<num_class g'}"
    using countpass_Inr_contiguous by blast+
next
  assume "countpass ls g = Inl (Class_not_used i)"
  then obtain n ppc where s: "countpass_scan (1, [0]) ls = Inr (n, ppc)"
    and m: "missing_class 0 n ppc = Some i"
    using countpass_Class_not_used by blast
  from countpass_scan_inv [OF s count_inv_init]
  have inv: "count_inv n ppc (classes_used ls)" by simp
  from missing_class_Some [OF m]
  have i: "i < n" "ppc ! i = 0" "\<forall>j<i. ppc ! j \<noteq> 0" by auto
  from inv i show "i \<notin> set (classes_used ls)"
    by (auto simp: count_inv_def count_list_0_iff)
  from inv i show "\<forall>k<i. k \<in> set (classes_used ls)"
    by (auto simp: count_inv_def count_list_0_iff)
  show "i = 0 \<or> (\<exists>c\<in>set (classes_used ls). i < c)"
  proof (cases "i = 0")
    case False
    with i have "n \<noteq> 1" by simp
    with inv have t: "n - 1 \<in> set (classes_used ls)" by (simp add: count_inv_def)
    with \<open>i \<notin> set (classes_used ls)\<close> have "i \<noteq> n - 1" by auto
    with i have "i < n - 1" by simp
    with t show ?thesis by blast
  qed simp
next
  assume a: "(\<forall>l\<in>set ls. is_pin_line l \<longrightarrow> line_class l \<noteq> None) \<and>
    j \<notin> set (classes_used ls) \<and> (j = 0 \<or> (\<exists>c\<in>set (classes_used ls). j < c))"
  then obtain n ppc where s: "countpass_scan (1, [0]) ls = Inr (n, ppc)"
    using countpass_scan_total by (metis surj_pair)
  from countpass_scan_inv [OF s count_inv_init]
  have inv: "count_inv n ppc (classes_used ls)" by simp
  from a inv have jn: "j < n" by (auto simp: count_inv_def)
  with a inv have "ppc ! j = 0" by (auto simp: count_inv_def count_list_0_iff)
  with jn have "missing_class 0 n ppc \<noteq> None" by (auto simp: missing_class_None)
  then obtain i where m: "missing_class 0 n ppc = Some i" by auto
  from missing_class_Some [OF m] \<open>ppc ! j = 0\<close> jn have "i \<le> j"
    by (meson not_le zero_le)
  moreover from s m have "countpass ls g = Inl (Class_not_used i)"
    by (simp add: countpass_def)
  ultimately show "\<exists>i\<le>j. countpass ls g = Inl (Class_not_used i)" by blast
qed


lemma line_class_examples:
  "line_class [''outpin'', ''class:'', ''0'', ''top''] = Some 0"
  "line_class [''inpin'', ''class:'', ''1'', ''left''] = Some 1"
  "line_class [''inpin'', ''class:'', ''2'', ''left''] = Some 2"
  by (simp_all add: line_class_def is_pin_line_def get_class_Cons atoi_0 atoi_1 atoi_2)

theorem countpass_classes_contiguous_witness:
  "countpass [[''outpin'', ''class:'', ''0'', ''top''], [''inpin'', ''class:'', ''2'', ''left'']]
     zero_globals = Inl (Class_not_used 1) \<and>
   (\<exists>g'. countpass [[''outpin'', ''class:'', ''0'', ''top''], [''inpin'', ''class:'', ''1'', ''left'']]
           zero_globals = Inr g' \<and>
         num_class g' = 2 \<and>
         set (classes_used [[''outpin'', ''class:'', ''0'', ''top''],
                [''inpin'', ''class:'', ''1'', ''left'']]) = {0..<2})"
proof -
  let ?F1 = "[[''outpin'', ''class:'', ''0'', ''top''], [''inpin'', ''class:'', ''2'', ''left'']]"
  let ?F2 = "[[''outpin'', ''class:'', ''0'', ''top''], [''inpin'', ''class:'', ''1'', ''left'']]"
  have u1: "classes_used ?F1 = [0, 2]"
    by (simp add: classes_used_Cons line_class_examples classes_used_def)
  have u2: "classes_used ?F2 = [0, 1]"
    by (simp add: classes_used_Cons line_class_examples classes_used_def)
  have p: "\<forall>l\<in>set ?F1. is_pin_line l \<longrightarrow> line_class l \<noteq> None"
    by (simp add: line_class_examples)
  have prem: "(\<forall>l\<in>set ?F1. is_pin_line l \<longrightarrow> line_class l \<noteq> None) \<and>
      1 \<notin> set (classes_used ?F1) \<and>
      ((1::nat) = 0 \<or> (\<exists>c\<in>set (classes_used ?F1). 1 < c))"
    unfolding u1 using p by simp
  from countpass_classes_contiguous [where ls = ?F1 and g = zero_globals and j = 1] prem
  obtain i where i: "i \<le> 1" "countpass ?F1 zero_globals = Inl (Class_not_used i)"
    by blast
  from countpass_classes_contiguous [where ls = ?F1 and g = zero_globals and i = i] i(2)
  have "i \<notin> set (classes_used ?F1)" by blast
  then have "i \<noteq> 0" unfolding u1 by simp
  with i have 1: "countpass ?F1 zero_globals = Inl (Class_not_used 1)" by simp
  have "\<exists>g'. countpass ?F2 zero_globals = Inr g' \<and> num_class g' = 2"
    by (simp add: countpass_def get_class_Cons atoi_0 atoi_1 missing_class.simps Let_def)
  then obtain g' where g: "countpass ?F2 zero_globals = Inr g'" "num_class g' = 2"
    by blast
  with countpass_classes_contiguous [of ?F2 zero_globals g']
  have "set (classes_used ?F2) = {0..<2}" by simp
  with 1 g show ?thesis by blast
qed


subsection \<open>The pad-slot pool\<close>

lemma for_loop_step:
  "i \<le> hi \<Longrightarrow> for_loop i hi body s = for_loop (i + 1) hi body (body i s)"
  by (subst for_loop.simps) simp

lemma for_loop_done: "\<not> i \<le> hi \<Longrightarrow> for_loop i hi body s = s"
  by (subst for_loop.simps) simp

lemma for_loop_invariant:
  "P s \<Longrightarrow> (\<And>i s. P s \<Longrightarrow> P (body i s)) \<Longrightarrow> P (for_loop i hi body s)"
proof (induction i hi body s rule: for_loop.induct)
  case (1 i hi body s)
  show ?case
  proof (cases "i \<le> hi")
    case True
    with 1 show ?thesis by (simp add: for_loop_step)
  next
    case False
    with 1 show ?thesis by (simp add: for_loop_done)
  qed
qed

lemma io_blocks_set_type [simp]: "io_blocks (set_type xy t c xy') = io_blocks (c xy')"
  by (simp add: set_type_def)

lemma carve_x_loop:
  "0 \<le> n_y \<Longrightarrow> for_loop i n_x (carve_x r n_y) (c, idx) = (c', idx') \<Longrightarrow>
     idx' = idx + 2 * r * max 0 (n_x + 1 - i) \<and>
     (\<forall>a b. io_blocks (c' (a, b)) =
        (if i \<le> a \<and> a \<le> n_x \<and> b = 0 then Some (idx + 2 * r * (a - i))
         else if i \<le> a \<and> a \<le> n_x \<and> b = n_y + 1 then Some (idx + 2 * r * (a - i) + r)
         else io_blocks (c (a, b))))"
proof (induction i n_x "carve_x r n_y" "(c, idx)" arbitrary: c idx rule: for_loop.induct)
  case (1 i n_x)
  show ?case
  proof (cases "i \<le> n_x")
    case True
    let ?c1 = "set_io_blocks (i, n_y + 1) (idx + r) (set_io_blocks (i, 0) idx c)"
    have b: "carve_x r n_y i (c, idx) = (?c1, idx + r + r)"
      by (simp add: carve_x_def Let_def)
    from "1.prems"(2) True
    have "for_loop (i + 1) n_x (carve_x r n_y) (?c1, idx + r + r) = (c', idx')"
      by (simp add: for_loop_step b)
    from "1.hyps" [OF True b "1.prems"(1) this]
    have ih: "idx' = idx + r + r + 2 * r * max 0 (n_x + 1 - (i + 1))"
      "\<And>a b. io_blocks (c' (a, b)) =
        (if i + 1 \<le> a \<and> a \<le> n_x \<and> b = 0 then Some (idx + r + r + 2 * r * (a - (i + 1)))
         else if i + 1 \<le> a \<and> a \<le> n_x \<and> b = n_y + 1
           then Some (idx + r + r + 2 * r * (a - (i + 1)) + r)
         else io_blocks (?c1 (a, b)))"
      by auto
    have m: "max 0 (n_x + 1 - i) = 1 + max 0 (n_x + 1 - (i + 1))"
      using True by simp
    have e: "idx + r + r + 2 * r * (a - (i + 1)) = idx + 2 * r * (a - i)" for a
      by (simp add: algebra_simps)
    show ?thesis
    proof (intro conjI allI)
      show "idx' = idx + 2 * r * max 0 (n_x + 1 - i)"
        unfolding ih(1) m by (simp add: algebra_simps)
      fix a b
      show "io_blocks (c' (a, b)) =
        (if i \<le> a \<and> a \<le> n_x \<and> b = 0 then Some (idx + 2 * r * (a - i))
         else if i \<le> a \<and> a \<le> n_x \<and> b = n_y + 1 then Some (idx + 2 * r * (a - i) + r)
         else io_blocks (c (a, b)))"
        unfolding ih(2) e using True "1.prems"(1)
        by (auto simp: set_io_blocks_def)
    qed
  next
    case False
    with "1.prems" show ?thesis by (auto simp: for_loop_done)
  qed
qed

lemma carve_y_loop:
  "0 \<le> n_x \<Longrightarrow> for_loop i n_y (carve_y r n_x) (c, idx) = (c', idx') \<Longrightarrow>
     idx' = idx + 2 * r * max 0 (n_y + 1 - i) \<and>
     (\<forall>a b. io_blocks (c' (a, b)) =
        (if i \<le> b \<and> b \<le> n_y \<and> a = 0 then Some (idx + 2 * r * (b - i))
         else if i \<le> b \<and> b \<le> n_y \<and> a = n_x + 1 then Some (idx + 2 * r * (b - i) + r)
         else io_blocks (c (a, b))))"
proof (induction i n_y "carve_y r n_x" "(c, idx)" arbitrary: c idx rule: for_loop.induct)
  case (1 i n_y)
  show ?case
  proof (cases "i \<le> n_y")
    case True
    let ?c1 = "set_io_blocks (n_x + 1, i) (idx + r) (set_io_blocks (0, i) idx c)"
    have b: "carve_y r n_x i (c, idx) = (?c1, idx + r + r)"
      by (simp add: carve_y_def Let_def)
    from "1.prems"(2) True
    have "for_loop (i + 1) n_y (carve_y r n_x) (?c1, idx + r + r) = (c', idx')"
      by (simp add: for_loop_step b)
    from "1.hyps" [OF True b "1.prems"(1) this]
    have ih: "idx' = idx + r + r + 2 * r * max 0 (n_y + 1 - (i + 1))"
      "\<And>a b. io_blocks (c' (a, b)) =
        (if i + 1 \<le> b \<and> b \<le> n_y \<and> a = 0 then Some (idx + r + r + 2 * r * (b - (i + 1)))
         else if i + 1 \<le> b \<and> b \<le> n_y \<and> a = n_x + 1
           then Some (idx + r + r + 2 * r * (b - (i + 1)) + r)
         else io_blocks (?c1 (a, b)))"
      by auto
    have m: "max 0 (n_y + 1 - i) = 1 + max 0 (n_y + 1 - (i + 1))"
      using True by simp
    have e: "idx + r + r + 2 * r * (b - (i + 1)) = idx + 2 * r * (b - i)" for b
      by (simp add: algebra_simps)
    show ?thesis
    proof (intro conjI allI)
      show "idx' = idx + 2 * r * max 0 (n_y + 1 - i)"
        unfolding ih(1) m by (simp add: algebra_simps)
      fix a b
      show "io_blocks (c' (a, b)) =
        (if i \<le> b \<and> b \<le> n_y \<and> a = 0 then Some (idx + 2 * r * (b - i))
         else if i \<le> b \<and> b \<le> n_y \<and> a = n_x + 1 then Some (idx + 2 * r * (b - i) + r)
         else io_blocks (c (a, b)))"
        unfolding ih(2) e using True "1.prems"(1)
        by (auto simp: set_io_blocks_def)
    qed
  next
    case False
    with "1.prems" show ?thesis by (auto simp: for_loop_done)
  qed
qed


lemma set_type_loops_io_blocks:
  "io_blocks (for_loop i hi (\<lambda>i c. set_type (f i) t (set_type (h i) t c)) c xy)
     = io_blocks (c xy)"
proof -
  have "\<forall>xy. io_blocks (for_loop i hi (\<lambda>i c. set_type (f i) t (set_type (h i) t c)) c xy)
          = io_blocks (c xy)"
    by (rule for_loop_invariant [where P = "\<lambda>s. \<forall>xy. io_blocks (s xy) = io_blocks (c xy)"])
      simp_all
  then show ?thesis by blast
qed

lemma set_type_inner_io_blocks:
  "io_blocks (for_loop lo hi (\<lambda>j c'. set_type (i, j) t c') c xy) = io_blocks (c xy)"
proof -
  have "\<forall>xy. io_blocks (for_loop lo hi (\<lambda>j c'. set_type (i, j) t c') c xy) = io_blocks (c xy)"
    by (rule for_loop_invariant [where P = "\<lambda>s. \<forall>xy. io_blocks (s xy) = io_blocks (c xy)"])
      simp_all
  then show ?thesis by blast
qed

lemma set_type_nested_io_blocks:
  "io_blocks
     (for_loop i hi (\<lambda>i c. for_loop lo hi' (\<lambda>j c'. set_type (i, j) t c') c) c xy)
     = io_blocks (c xy)"
proof -
  have "\<forall>xy. io_blocks
     (for_loop i hi (\<lambda>i c. for_loop lo hi' (\<lambda>j c'. set_type (i, j) t c') c) c xy)
     = io_blocks (c xy)"
    by (rule for_loop_invariant [where P = "\<lambda>s. \<forall>xy. io_blocks (s xy) = io_blocks (c xy)"])
      (simp_all add: set_type_inner_io_blocks)
  then show ?thesis by blast
qed

lemma fill_arch_io_blocks:
  assumes nx: "0 \<le> nx g" and ny: "0 \<le> ny g"
  shows "io_blocks (clb (fill_arch g) (a, b)) =
    (if 1 \<le> b \<and> b \<le> ny g \<and> a = 0 then Some (2 * io_rat g * nx g + 2 * io_rat g * (b - 1))
     else if 1 \<le> b \<and> b \<le> ny g \<and> a = nx g + 1
       then Some (2 * io_rat g * nx g + 2 * io_rat g * (b - 1) + io_rat g)
     else if 1 \<le> a \<and> a \<le> nx g \<and> b = 0 then Some (2 * io_rat g * (a - 1))
     else if 1 \<le> a \<and> a \<le> nx g \<and> b = ny g + 1
       then Some (2 * io_rat g * (a - 1) + io_rat g)
     else io_blocks (clb g (a, b)))"
proof -
  obtain c1 idx1 where 1: "for_loop 1 (nx g) (carve_x (io_rat g) (ny g)) (clb g, 0) = (c1, idx1)"
    by (cases "for_loop 1 (nx g) (carve_x (io_rat g) (ny g)) (clb g, 0)")
  obtain c2 idx2 where 2: "for_loop 1 (ny g) (carve_y (io_rat g) (nx g)) (c1, idx1) = (c2, idx2)"
    by (cases "for_loop 1 (ny g) (carve_y (io_rat g) (nx g)) (c1, idx1)")
  from carve_x_loop [OF ny 1] nx
  have i1: "idx1 = 2 * io_rat g * nx g"
    and b1: "\<And>a b. io_blocks (c1 (a, b)) =
        (if 1 \<le> a \<and> a \<le> nx g \<and> b = 0 then Some (0 + 2 * io_rat g * (a - 1))
         else if 1 \<le> a \<and> a \<le> nx g \<and> b = ny g + 1
           then Some (0 + 2 * io_rat g * (a - 1) + io_rat g)
         else io_blocks (clb g (a, b)))"
    by auto
  from carve_y_loop [OF nx 2]
  have b2: "\<And>a b. io_blocks (c2 (a, b)) =
        (if 1 \<le> b \<and> b \<le> ny g \<and> a = 0 then Some (idx1 + 2 * io_rat g * (b - 1))
         else if 1 \<le> b \<and> b \<le> ny g \<and> a = nx g + 1
           then Some (idx1 + 2 * io_rat g * (b - 1) + io_rat g)
         else io_blocks (c1 (a, b)))"
    by auto
  have "io_blocks (clb (fill_arch g) (a, b)) = io_blocks (c2 (a, b))"
    by (simp add: fill_arch_def Let_def 1 2 set_type_loops_io_blocks set_type_nested_io_blocks)
  then show ?thesis
    unfolding b2 b1 i1 by simp
qed

lemma pool_size_fill_arch: "pool_size (fill_arch g) = 2 * io_rat g * (nx g + ny g)"
  by (simp add: fill_arch_def Let_def)

text \<open>
  C2 (as the code has it).  On a grid with \<open>nx, ny \<ge> 0\<close>, \<open>fill_arch\<close> allocates one pool
  of \<open>2 * io_rat * (nx + ny)\<close> cells and gives every perimeter cell a slice of \<open>io_rat\<close>
  cells of it, the \<open>k\<close>-th slice starting at offset \<open>io_rat * k\<close>.  The slices are handed
  out in this order: first, for each column \<open>i = 1, ..., nx\<close> in increasing order, the
  cell \<open>(i, 0)\<close> of row 0 and then the cell \<open>(i, ny + 1)\<close> of row \<open>ny + 1\<close> (slices
  \<open>2 (i - 1)\<close> and \<open>2 (i - 1) + 1\<close>); then, for each row \<open>j = 1, ..., ny\<close> in increasing
  order, the cell \<open>(0, j)\<close> of column 0 and then the cell \<open>(nx + 1, j)\<close> of column \<open>nx + 1\<close>
  (slices \<open>2 nx + 2 (j - 1)\<close> and \<open>2 nx + 2 (j - 1) + 1\<close>).  All slice numbers are below
  \<open>2 (nx + ny)\<close>.
\<close>

theorem fill_arch_carve_order:
  "0 \<le> nx g \<Longrightarrow> 0 \<le> ny g \<Longrightarrow>
   pool_size (fill_arch g) = io_rat g * (2 * (nx g + ny g)) \<and>
   (\<forall>i. 1 \<le> i \<and> i \<le> nx g \<longrightarrow>
      io_blocks (clb (fill_arch g) (i, 0)) = Some (io_rat g * (2 * (i - 1))) \<and>
      io_blocks (clb (fill_arch g) (i, ny g + 1)) = Some (io_rat g * (2 * (i - 1) + 1)) \<and>
      0 \<le> 2 * (i - 1) \<and> 2 * (i - 1) + 1 < 2 * (nx g + ny g)) \<and>
   (\<forall>j. 1 \<le> j \<and> j \<le> ny g \<longrightarrow>
      io_blocks (clb (fill_arch g) (0, j)) = Some (io_rat g * (2 * nx g + 2 * (j - 1))) \<and>
      io_blocks (clb (fill_arch g) (nx g + 1, j))
        = Some (io_rat g * (2 * nx g + 2 * (j - 1) + 1)) \<and>
      0 \<le> 2 * nx g + 2 * (j - 1) \<and> 2 * nx g + 2 * (j - 1) + 1 < 2 * (nx g + ny g))"
proof (intro conjI allI impI)
  assume nx: "0 \<le> nx g" and ny: "0 \<le> ny g"
  show "pool_size (fill_arch g) = io_rat g * (2 * (nx g + ny g))"
    by (simp add: pool_size_fill_arch)
  {
    fix i assume i: "1 \<le> i \<and> i \<le> nx g"
    with ny show "io_blocks (clb (fill_arch g) (i, 0)) = Some (io_rat g * (2 * (i - 1)))"
      by (simp add: fill_arch_io_blocks [OF nx ny] algebra_simps)
    from i ny show "io_blocks (clb (fill_arch g) (i, ny g + 1)) = Some (io_rat g * (2 * (i - 1) + 1))"
      by (simp add: fill_arch_io_blocks [OF nx ny] algebra_simps)
    from i show "0 \<le> 2 * (i - 1)" by simp
    from i ny show "2 * (i - 1) + 1 < 2 * (nx g + ny g)" by simp
  }
  {
    fix j assume j: "1 \<le> j \<and> j \<le> ny g"
    then show "io_blocks (clb (fill_arch g) (0, j)) = Some (io_rat g * (2 * nx g + 2 * (j - 1)))"
      by (simp add: fill_arch_io_blocks [OF nx ny] algebra_simps)
    from j nx show "io_blocks (clb (fill_arch g) (nx g + 1, j))
        = Some (io_rat g * (2 * nx g + 2 * (j - 1) + 1))"
      by (simp add: fill_arch_io_blocks [OF nx ny] algebra_simps)
    from j nx show "0 \<le> 2 * nx g + 2 * (j - 1)" by simp
    from j show "2 * nx g + 2 * (j - 1) + 1 < 2 * (nx g + ny g)" by simp
  }
qed

theorem fill_arch_carve_order_witness:
  "pool_size (fill_arch (zero_globals\<lparr>io_rat := 1, nx := 1, ny := 1\<rparr>)) = 4 \<and>
   io_blocks (clb (fill_arch (zero_globals\<lparr>io_rat := 1, nx := 1, ny := 1\<rparr>)) (1, 0)) = Some 0 \<and>
   io_blocks (clb (fill_arch (zero_globals\<lparr>io_rat := 1, nx := 1, ny := 1\<rparr>)) (1, 2)) = Some 1 \<and>
   io_blocks (clb (fill_arch (zero_globals\<lparr>io_rat := 1, nx := 1, ny := 1\<rparr>)) (0, 1)) = Some 2 \<and>
   io_blocks (clb (fill_arch (zero_globals\<lparr>io_rat := 1, nx := 1, ny := 1\<rparr>)) (2, 1)) = Some 3"
proof -
  let ?g = "zero_globals\<lparr>io_rat := 1, nx := 1, ny := 1\<rparr>"
  have h: "0 \<le> nx ?g" "0 \<le> ny ?g" by simp_all
  note t = fill_arch_carve_order [OF h]
  from t have 0: "pool_size (fill_arch ?g) = 4" by simp
  from t have "1 \<le> (1::int) \<and> (1::int) \<le> nx ?g \<longrightarrow>
      io_blocks (clb (fill_arch ?g) (1, 0)) = Some (io_rat ?g * (2 * (1 - 1))) \<and>
      io_blocks (clb (fill_arch ?g) (1, ny ?g + 1)) = Some (io_rat ?g * (2 * (1 - 1) + 1))"
    by blast
  then have 1: "io_blocks (clb (fill_arch ?g) (1, 0)) = Some 0"
    "io_blocks (clb (fill_arch ?g) (1, 2)) = Some 1" by simp_all
  from t have "1 \<le> (1::int) \<and> (1::int) \<le> ny ?g \<longrightarrow>
      io_blocks (clb (fill_arch ?g) (0, 1)) = Some (io_rat ?g * (2 * nx ?g + 2 * (1 - 1))) \<and>
      io_blocks (clb (fill_arch ?g) (nx ?g + 1, 1))
        = Some (io_rat ?g * (2 * nx ?g + 2 * (1 - 1) + 1))"
    by blast
  then have 2: "io_blocks (clb (fill_arch ?g) (0, 1)) = Some 2"
    "io_blocks (clb (fill_arch ?g) (2, 1)) = Some 3" by simp_all
  from 0 1 2 show ?thesis by blast
qed

text \<open>
  With \<open>io_rat = 3\<close>, \<open>nx = 2\<close> and \<open>ny = 1\<close> the first four slices go to the cells of rows
  0 and 2, column by column, and the last two to the cells of columns 0 and 3: the cells
  of the left and right columns are not served first.
\<close>

theorem fill_arch_carve_order_counterexample:
  "io_blocks (clb (fill_arch (zero_globals\<lparr>io_rat := 3, nx := 2, ny := 1\<rparr>)) (1, 0)) = Some 0 \<and>
   io_blocks (clb (fill_arch (zero_globals\<lparr>io_rat := 3, nx := 2, ny := 1\<rparr>)) (1, 2)) = Some 3 \<and>
   io_blocks (clb (fill_arch (zero_globals\<lparr>io_rat := 3, nx := 2, ny := 1\<rparr>)) (2, 0)) = Some 6 \<and>
   io_blocks (clb (fill_arch (zero_globals\<lparr>io_rat := 3, nx := 2, ny := 1\<rparr>)) (2, 2)) = Some 9 \<and>
   io_blocks (clb (fill_arch (zero_globals\<lparr>io_rat := 3, nx := 2, ny := 1\<rparr>)) (0, 1)) = Some 12 \<and>
   io_blocks (clb (fill_arch (zero_globals\<lparr>io_rat := 3, nx := 2, ny := 1\<rparr>)) (3, 1)) = Some 15"
proof -
  let ?g = "zero_globals\<lparr>io_rat := 3, nx := 2, ny := 1\<rparr>"
  have h: "0 \<le> nx ?g" "0 \<le> ny ?g" by simp_all
  show ?thesis
    by (simp add: fill_arch_io_blocks [OF h])
qed

subsection \<open>Automatic sizing of the grid\<close>



































end
